theory Spec2Isabelle
  imports Main "HOL-Library.List_Lexorder" "HOL-Library.Sublist"
begin

section \<open>Text\<close>

text \<open>
  A Python \<open>str\<close> is the list of its Unicode code points. Lists are ordered
  lexicographically (a proper prefix first), which is the order Python's \<open>sorted\<close>
  uses on strings. Files hold text: encoding to and decoding from UTF-8 is not modelled.
  \<open>ustr\<close> turns an ASCII literal into such a text.
\<close>

type_synonym ustring = "nat list"

definition ustr :: "string \<Rightarrow> ustring" where
  "ustr s = map of_char s"

abbreviation SPACE :: nat where "SPACE \<equiv> 0x20"
abbreviation HYPHEN :: nat where "HYPHEN \<equiv> 0x2D"
abbreviation EN_DASH :: nat where "EN_DASH \<equiv> 0x2013"
abbreviation EM_DASH :: nat where "EM_DASH \<equiv> 0x2014"
abbreviation COLON :: nat where "COLON \<equiv> 0x3A"
abbreviation COMMA :: nat where "COMMA \<equiv> 0x2C"
abbreviation LF :: nat where "LF \<equiv> 0x0A"
abbreviation CR :: nat where "CR \<equiv> 0x0D"

text \<open>
  The character classes of the Python runtime (CPython 3.11, Unicode 14.0.0):
  \<open>is_space\<close> is what \<open>\s\<close> of \<open>re\<close> and \<open>str.strip()\<close> call whitespace,
  \<open>is_linebreak\<close> is where \<open>str.splitlines()\<close> splits, \<open>decimal_value\<close> is the
  value of a decimal digit (category Nd, what \<open>\d\<close> matches and \<open>int\<close> reads);
  every run of ten digits starts at one of \<open>nd_starts\<close>.
\<close>

definition is_space :: "nat \<Rightarrow> bool" where
  "is_space c \<longleftrightarrow>
     (0x09 \<le> c \<and> c \<le> 0x0D) \<or> (0x1C \<le> c \<and> c \<le> 0x20) \<or> c = 0x85 \<or> c = 0xA0 \<or>
     c = 0x1680 \<or> (0x2000 \<le> c \<and> c \<le> 0x200A) \<or> c = 0x2028 \<or> c = 0x2029 \<or>
     c = 0x202F \<or> c = 0x205F \<or> c = 0x3000"

definition is_linebreak :: "nat \<Rightarrow> bool" where
  "is_linebreak c \<longleftrightarrow>
     (0x0A \<le> c \<and> c \<le> 0x0D) \<or> (0x1C \<le> c \<and> c \<le> 0x1E) \<or> c = 0x85 \<or>
     c = 0x2028 \<or> c = 0x2029"

definition nd_starts :: "nat list" where
  "nd_starts =
    [0x30, 0x660, 0x6F0, 0x7C0, 0x966, 0x9E6, 0xA66, 0xAE6, 0xB66, 0xBE6, 0xC66, 0xCE6,
     0xD66, 0xDE6, 0xE50, 0xED0, 0xF20, 0x1040, 0x1090, 0x17E0, 0x1810, 0x1946, 0x19D0,
     0x1A80, 0x1A90, 0x1B50, 0x1BB0, 0x1C40, 0x1C50, 0xA620, 0xA8D0, 0xA900, 0xA9D0,
     0xA9F0, 0xAA50, 0xABF0, 0xFF10, 0x104A0, 0x10D30, 0x11066, 0x110F0, 0x11136,
     0x111D0, 0x112F0, 0x11450, 0x114D0, 0x11650, 0x116C0, 0x11730, 0x118E0, 0x11950,
     0x11C50, 0x11D50, 0x11DA0, 0x16A60, 0x16AC0, 0x16B50, 0x1D7CE, 0x1D7D8, 0x1D7E2,
     0x1D7EC, 0x1D7F6, 0x1E140, 0x1E2F0, 0x1E950, 0x1FBF0]"

definition decimal_value :: "nat \<Rightarrow> nat option" where
  "decimal_value c =
     (case find (\<lambda>a. a \<le> c \<and> c < a + 10) nd_starts of
        None \<Rightarrow> None
      | Some a \<Rightarrow> Some (c - a))"

definition is_digit :: "nat \<Rightarrow> bool" where
  "is_digit c \<longleftrightarrow> decimal_value c \<noteq> None"

section \<open>Canonical helpers\<close>

text \<open>
  \<^verbatim>\<open>_WS_RE = re.compile(r"\s+")\<close>;
  \<open>ws_re_sub\<close> is \<^verbatim>\<open>_WS_RE.sub(" ", s)\<close>: every maximal run of whitespace
  becomes one space. \<open>replace old new\<close> is \<open>str.replace\<close> for one-character
  arguments, \<open>strip\<close> is \<open>str.strip()\<close>.
\<close>

function ws_re_sub :: "ustring \<Rightarrow> ustring" where
  "ws_re_sub [] = []"
| "ws_re_sub (c # cs) =
     (if is_space c then SPACE # ws_re_sub (dropWhile is_space cs)
      else c # ws_re_sub cs)"
  by pat_completeness auto
termination
  by (relation "measure length") (auto simp: less_Suc_eq_le length_dropWhile_le)

definition replace :: "nat \<Rightarrow> nat \<Rightarrow> ustring \<Rightarrow> ustring" where
  "replace old new s = map (\<lambda>c. if c = old then new else c) s"

definition strip :: "ustring \<Rightarrow> ustring" where
  "strip s = rev (dropWhile is_space (rev (dropWhile is_space s)))"

text \<open>
  \<^verbatim>\<open>
  def _canonical(s: str) -> str:
      s = unicodedata.normalize("NFC", s)
      s = s.replace(EN DASH, "-").replace(EM DASH, "-")
      s = _WS_RE.sub(" ", s)
      return s.strip()
  \<close>
  \<open>unicodedata.normalize("NFC", _)\<close> is a function of the Unicode database and not
  of this program: it is the parameter \<open>nfc\<close>.
\<close>

definition canonical :: "(ustring \<Rightarrow> ustring) \<Rightarrow> ustring \<Rightarrow> ustring" where
  "canonical nfc s =
     strip (ws_re_sub (replace EM_DASH HYPHEN (replace EN_DASH HYPHEN (nfc s))))"

section \<open>Card parser\<close>

text \<open>The exceptions a run can end with.\<close>

datatype error =
  ValueError | AttributeError | TypeError | IndexError | OverflowError | OSError | DeliveryError

text \<open>
  \<^verbatim>\<open>_TIME_RE = re.compile(r"(\d{2}:\d{2})\s*-\s*(\d{2}:\d{2})")\<close>.
  \<open>match_hhmm\<close> is one group \<^verbatim>\<open>\d{2}:\d{2}\<close> at the start of a text (the group and
  what follows it), \<open>time_re_match\<close> the whole pattern at the start of a text, and
  \<open>time_re_search\<close> is \<^verbatim>\<open>_TIME_RE.search(s)\<close> with \<open>m.groups()\<close>: the leftmost
  match. The greedy \<^verbatim>\<open>\s*\<close> never has to give a character back, since a hyphen
  and a digit are not whitespace.
\<close>

fun match_hhmm :: "ustring \<Rightarrow> (ustring \<times> ustring) option" where
  "match_hhmm (a # b # c # d # e # rest) =
     (if is_digit a \<and> is_digit b \<and> c = COLON \<and> is_digit d \<and> is_digit e
      then Some ([a, b, c, d, e], rest) else None)"
| "match_hhmm _ = None"

definition time_re_match :: "ustring \<Rightarrow> (ustring \<times> ustring) option" where
  "time_re_match s =
     (case match_hhmm s of
        None \<Rightarrow> None
      | Some (start, r1) \<Rightarrow>
          (case dropWhile is_space r1 of
             [] \<Rightarrow> None
           | h # r2 \<Rightarrow>
               if h = HYPHEN then
                 (case match_hhmm (dropWhile is_space r2) of
                    None \<Rightarrow> None
                  | Some (fin, _) \<Rightarrow> Some (start, fin))
               else None))"

fun time_re_search :: "ustring \<Rightarrow> (ustring \<times> ustring) option" where
  "time_re_search [] = None"
| "time_re_search (c # cs) =
     (case time_re_match (c # cs) of
        Some g \<Rightarrow> Some g
      | None \<Rightarrow> time_re_search cs)"

subsection \<open>Dates\<close>

text \<open>
  \<open>datetime.strptime(s, "%B %d, %Y")\<close> in the C locale, as CPython's \<open>_strptime\<close>
  does it: the format becomes the regular expression
  \<^verbatim>\<open>(january|...|december)\s+(3[0-1]|[1-2]\d|0[1-9]|[1-9]| [1-9]),\s+(\d\d\d\d)\<close>,
  matched at the start of the text without regard to case; the match has to end where
  the text ends, and year, month and day have to be a date. Every failure is a
  \<open>ValueError\<close>. The month names have ASCII letters only, so the letters that match
  them and lower to them are the ASCII ones.
\<close>

definition month_names :: "ustring list" where
  "month_names = map ustr
     [''january'', ''february'', ''march'', ''april'', ''may'', ''june'', ''july'',
      ''august'', ''september'', ''october'', ''november'', ''december'']"

definition lower_ascii :: "nat \<Rightarrow> nat" where
  "lower_ascii c = (if 0x41 \<le> c \<and> c \<le> 0x5A then c + 0x20 else c)"

definition match_month :: "ustring \<Rightarrow> (nat \<times> ustring) option" where
  "match_month s =
     (case find (\<lambda>(m, name). map lower_ascii (take (length name) s) = name)
             (enumerate 1 month_names) of
        None \<Rightarrow> None
      | Some (m, name) \<Rightarrow> Some (m, drop (length name) s))"

text \<open>\<^verbatim>\<open>\s+\<close>: at least one whitespace character, and all that follow.\<close>

definition ws_plus :: "ustring \<Rightarrow> ustring option" where
  "ws_plus s =
     (case s of
        [] \<Rightarrow> None
      | c # cs \<Rightarrow> if is_space c then Some (dropWhile is_space cs) else None)"

text \<open>
  The day, \<^verbatim>\<open>3[0-1]|[1-2]\d|0[1-9]|[1-9]| [1-9]\<close>, the alternatives in their order.
  A comma follows the day, so an alternative of two characters and one of one character
  never both lead to a match.
\<close>

fun match_day :: "ustring \<Rightarrow> (nat \<times> ustring) option" where
  "match_day (a # b # rest) =
     (if a = 0x33 \<and> (b = 0x30 \<or> b = 0x31) then Some (30 + (b - 0x30), rest)
      else if (a = 0x31 \<or> a = 0x32) \<and> is_digit b then
        (case decimal_value b of
           None \<Rightarrow> None
         | Some v \<Rightarrow> Some (10 * (a - 0x30) + v, rest))
      else if a = 0x30 \<and> 0x31 \<le> b \<and> b \<le> 0x39 then Some (b - 0x30, rest)
      else if 0x31 \<le> a \<and> a \<le> 0x39 then Some (a - 0x30, b # rest)
      else if a = SPACE \<and> 0x31 \<le> b \<and> b \<le> 0x39 then Some (b - 0x30, rest)
      else None)"
| "match_day [a] = (if 0x31 \<le> a \<and> a \<le> 0x39 then Some (a - 0x30, []) else None)"
| "match_day [] = None"

fun match_year :: "ustring \<Rightarrow> (nat \<times> ustring) option" where
  "match_year (a # b # c # d # rest) =
     (case (decimal_value a, decimal_value b, decimal_value c, decimal_value d) of
        (Some p, Some q, Some r, Some s) \<Rightarrow> Some (1000 * p + 100 * q + 10 * r + s, rest)
      | _ \<Rightarrow> None)"
| "match_year _ = None"

definition is_leap :: "nat \<Rightarrow> bool" where
  "is_leap year \<longleftrightarrow> year mod 4 = 0 \<and> (year mod 100 \<noteq> 0 \<or> year mod 400 = 0)"

definition DAYS_IN_MONTH :: "nat list" where
  "DAYS_IN_MONTH = [0, 31, 28, 31, 30, 31, 30, 31, 31, 30, 31, 30, 31]"

definition DAYS_BEFORE_MONTH :: "nat list" where
  "DAYS_BEFORE_MONTH = [0, 0, 31, 59, 90, 120, 151, 181, 212, 243, 273, 304, 334]"

definition days_in_month :: "nat \<Rightarrow> nat \<Rightarrow> nat" where
  "days_in_month year month =
     (if month = 2 \<and> is_leap year then 29 else DAYS_IN_MONTH ! month)"

definition strptime :: "ustring \<Rightarrow> error + (nat \<times> nat \<times> nat)" where
  "strptime s =
     (case match_month s of
        None \<Rightarrow> Inl ValueError
      | Some (month, r1) \<Rightarrow>
     (case ws_plus r1 of
        None \<Rightarrow> Inl ValueError
      | Some r2 \<Rightarrow>
     (case match_day r2 of
        None \<Rightarrow> Inl ValueError
      | Some (day, r3) \<Rightarrow>
     (case r3 of
        [] \<Rightarrow> Inl ValueError
      | c # r4 \<Rightarrow>
     if c \<noteq> COMMA then Inl ValueError else
     (case ws_plus r4 of
        None \<Rightarrow> Inl ValueError
      | Some r5 \<Rightarrow>
     (case match_year r5 of
        None \<Rightarrow> Inl ValueError
      | Some (year, r6) \<Rightarrow>
     if r6 \<noteq> [] then Inl ValueError
     else if year < 1 \<or> days_in_month year month < day then Inl ValueError
     else Inr (year, month, day)))))))"

text \<open>
  \<open>str(n)\<close> for a natural number, and \<open>strftime("%Y-%m-%d")\<close> (CPython 3.11 on
  glibc: the year is not padded, month and day have two digits).
\<close>

fun str_nat :: "nat \<Rightarrow> ustring" where
  "str_nat n = (if n < 10 then [0x30 + n] else str_nat (n div 10) @ [0x30 + n mod 10])"

declare str_nat.simps [simp del]

definition pad2 :: "nat \<Rightarrow> ustring" where
  "pad2 n = (if n < 10 then 0x30 # str_nat n else str_nat n)"

definition strftime :: "nat \<times> nat \<times> nat \<Rightarrow> ustring" where
  "strftime ymd =
     (case ymd of (year, month, day) \<Rightarrow>
        str_nat year @ [HYPHEN] @ pad2 month @ [HYPHEN] @ pad2 day)"

text \<open>
  \<^verbatim>\<open>
  def _normalise_date(raw: str) -> str:
      return datetime.strptime(raw.strip(), "%B %d, %Y").strftime("%Y-%m-%d")
  \<close>
\<close>

definition normalise_date :: "ustring \<Rightarrow> error + ustring" where
  "normalise_date raw =
     (case strptime (strip raw) of
        Inl e \<Rightarrow> Inl e
      | Inr ymd \<Rightarrow> Inr (strftime ymd))"

subsection \<open>Cards\<close>

text \<open>
  What \<open>_card_to_line\<close> reads of a booking card: the text of its date span
  (\<^verbatim>\<open>select_one("span.text-gray-400.text-sm")\<close>, \<open>None\<close> when the card has none),
  the text of its time span (\<^verbatim>\<open>select_one("span.font-semibold.text-xl")\<close>), and
  the strings of the nearest \<open>h3\<close> before the card in document order
  (\<^verbatim>\<open>find_previous("h3")\<close>, \<open>None\<close> when there is none). A tag of BeautifulSoup is
  always true, so \<open>not date_span\<close> holds for \<open>None\<close> only.
  \<open>get_text(strip=True)\<close> strips every string of the tag and joins those that are
  left non-empty.
\<close>

record card =
  date_span :: "ustring option"
  time_span :: "ustring option"
  previous_h3 :: "ustring list option"

definition get_text_strip :: "ustring list \<Rightarrow> ustring" where
  "get_text_strip strings = concat (filter (\<lambda>s. s \<noteq> []) (map strip strings))"

text \<open>
  \<^verbatim>\<open>
  def _card_to_line(card_div) -> str | None:
      date_span = card_div.select_one("span.text-gray-400.text-sm")
      time_span = card_div.select_one("span.font-semibold.text-xl")
      if not date_span or not time_span:
          return None
      m = _TIME_RE.search(time_span.get_text())
      if not m:
          return None
      start, end = m.groups()
      date_iso = _normalise_date(date_span.get_text())
      title    = (card_div.find_previous("h3") or "").get_text(strip=True) or "Unknown booking"
      return _canonical(f"{date_iso} {start}-{end} - {title}")
  \<close>
  When there is no \<open>h3\<close>, \<open>get_text\<close> is looked up on the string \<open>""\<close>, which has
  no such attribute: \<open>AttributeError\<close>.
\<close>

definition card_to_line :: "(ustring \<Rightarrow> ustring) \<Rightarrow> card \<Rightarrow> error + ustring option" where
  "card_to_line nfc card_div =
     (case (date_span card_div, time_span card_div) of
        (Some date_text, Some time_text) \<Rightarrow>
          (case time_re_search time_text of
             None \<Rightarrow> Inr None
           | Some (start, fin) \<Rightarrow>
               (case normalise_date date_text of
                  Inl e \<Rightarrow> Inl e
                | Inr date_iso \<Rightarrow>
                    (case previous_h3 card_div of
                       None \<Rightarrow> Inl AttributeError
                     | Some strings \<Rightarrow>
                         let text = get_text_strip strings;
                             title = (if text = [] then ustr ''Unknown booking'' else text)
                         in Inr (Some (canonical nfc
                              (date_iso @ [SPACE] @ start @ [HYPHEN] @ fin @ ustr '' - '' @ title))))))
      | _ \<Rightarrow> Inr None)"

text \<open>
  A page is the list of its booking cards (\<^verbatim>\<open>soup.select("div.p-6.flex")\<close>) in
  document order. \<open>map_result\<close> runs a function that can raise over a list and stops at
  the first exception, as the generator of \<open>html_to_lines\<close> does; \<open>filter(None, _)\<close>
  drops \<open>None\<close> and the empty string.
  \<^verbatim>\<open>
  def html_to_lines(html: str) -> List[str]:
      soup  = BeautifulSoup(html, "lxml")
      cards = soup.select("div.p-6.flex")
      lines = filter(None, (_card_to_line(c) for c in cards))
      return sorted(set(lines))
  \<close>
\<close>

fun map_result :: "('a \<Rightarrow> error + 'b) \<Rightarrow> 'a list \<Rightarrow> error + 'b list" where
  "map_result f [] = Inr []"
| "map_result f (x # xs) =
     (case f x of
        Inl e \<Rightarrow> Inl e
      | Inr y \<Rightarrow> (case map_result f xs of Inl e \<Rightarrow> Inl e | Inr ys \<Rightarrow> Inr (y # ys)))"

definition filter_none :: "ustring option list \<Rightarrow> ustring list" where
  "filter_none rs = concat (map (\<lambda>r. case r of None \<Rightarrow> [] | Some l \<Rightarrow> if l = [] then [] else [l]) rs)"

definition html_to_lines :: "(ustring \<Rightarrow> ustring) \<Rightarrow> card list \<Rightarrow> error + ustring list" where
  "html_to_lines nfc cards =
     (case map_result (card_to_line nfc) cards of
        Inl e \<Rightarrow> Inl e
      | Inr rs \<Rightarrow> Inr (sorted_list_of_set (set (filter_none rs))))"

section \<open>Browser driver\<close>

text \<open>
  The booking site, as one run sees it: for every date, whether the date picker offers
  it (\<open>_select_date_safe\<close> returns \<open>True\<close>), and the page that \<open>page.content()\<close>
  returns at each polling attempt after the search. Login and navigation are taken to
  succeed; printing (\<open>VERBOSE\<close>) is not modelled.
\<close>

record results_page =
  in_picker :: bool
  content :: "nat \<Rightarrow> card list"

text \<open>
  The polling loop of \<open>_lines_for_date\<close>, from attempt \<open>attempt\<close> on, with
  \<open>remaining\<close> attempts to go:
  \<^verbatim>\<open>
      lines: Set[str] = set()
      for attempt in range(SEARCH_ATTEMPTS):
          await page.wait_for_timeout(SEARCH_WAIT_MS)
          html  = await page.content()
          new   = set(html_to_lines(html))
          if new or attempt == SEARCH_ATTEMPTS - 1:
              lines = new
              break
      return lines
  \<close>
\<close>

fun poll :: "(ustring \<Rightarrow> ustring) \<Rightarrow> (nat \<Rightarrow> card list) \<Rightarrow> nat \<Rightarrow> nat \<Rightarrow> error + ustring set" where
  "poll nfc pages attempt 0 = Inr {}"
| "poll nfc pages attempt (Suc remaining) =
     (case html_to_lines nfc (pages attempt) of
        Inl e \<Rightarrow> Inl e
      | Inr ls \<Rightarrow>
          if ls \<noteq> [] \<or> remaining = 0 then Inr (set ls)
          else poll nfc pages (Suc attempt) remaining)"

definition lines_for_date :: "(ustring \<Rightarrow> ustring) \<Rightarrow> int \<Rightarrow> results_page \<Rightarrow> error + ustring set" where
  "lines_for_date nfc search_attempts pg =
     (if \<not> in_picker pg then Inr {}
      else poll nfc (content pg) 0 (nat search_attempts))"

text \<open>
  A \<open>date\<close> is its proleptic Gregorian ordinal (\<open>date.toordinal()\<close>, 1 for
  0001-01-01). \<open>ord2ymd\<close> is CPython's \<open>_ord2ymd\<close>; \<open>date_add\<close> is
  \<open>date + timedelta(days=i)\<close> for \<open>i \<ge> 0\<close>, which raises \<open>OverflowError\<close> beyond
  9999-12-31.
\<close>

definition MAXORDINAL :: nat where
  "MAXORDINAL = 3652059"

definition ord2ymd :: "nat \<Rightarrow> nat \<times> nat \<times> nat" where
  "ord2ymd ordinal =
     (let n0 = ordinal - 1;
          n400 = n0 div 146097; na = n0 mod 146097;
          n100 = na div 36524; nb = na mod 36524;
          n4 = nb div 1461; nc = nb mod 1461;
          n1 = nc div 365; n = nc mod 365;
          year = n400 * 400 + 1 + n100 * 100 + n4 * 4 + n1
      in if n1 = 4 \<or> n100 = 4 then (year - 1, 12, 31)
         else
           let leapyear = (n1 = 3 \<and> (n4 \<noteq> 24 \<or> n100 = 3));
               month = (n + 50) div 32;
               preceding = DAYS_BEFORE_MONTH ! month + (if month > 2 \<and> leapyear then 1 else 0)
           in if preceding > n then
                (year, month - 1,
                 n - (preceding - (DAYS_IN_MONTH ! (month - 1) +
                        (if month - 1 = 2 \<and> leapyear then 1 else 0))) + 1)
              else (year, month, n - preceding + 1))"

definition date_add :: "nat \<Rightarrow> nat \<Rightarrow> error + nat" where
  "date_add d days =
     (let ordinal = d + days
      in if 0 < ordinal \<and> ordinal \<le> MAXORDINAL then Inr ordinal else Inl OverflowError)"

text \<open>
  \<^verbatim>\<open>
      today = date.today()
      iso_dates = [
          (today + timedelta(days=i)).strftime("%Y-%m-%d")
          for i in range(DATE_WINDOW_DAYS + 1)
      ]
  \<close>
\<close>

definition py_range :: "int \<Rightarrow> nat list" where
  "py_range n = [0..<nat n]"

definition iso_dates :: "nat \<Rightarrow> int \<Rightarrow> error + ustring list" where
  "iso_dates today date_window_days =
     map_result
       (\<lambda>i. case date_add today i of Inl e \<Rightarrow> Inl e | Inr d \<Rightarrow> Inr (strftime (ord2ymd d)))
       (py_range (date_window_days + 1))"

text \<open>
  \<^verbatim>\<open>
          seen: Set[str] = set()
          for iso in iso_dates:
              seen.update(await _lines_for_date(page, iso))
      return sorted(seen)
  \<close>
  As shipped, line 155 of the source lacks the closing parenthesis of the \<open>seen.update\<close>
  call, and the file does not compile. \<open>update_all\<close> and \<open>fetch_all_slots\<close> are the
  loop and the function with this parenthesis restored: what a run does once it compiles.
\<close>

fun update_all :: "('a \<Rightarrow> error + ustring set) \<Rightarrow> 'a list \<Rightarrow> ustring set \<Rightarrow> error + ustring set" where
  "update_all f [] seen = Inr seen"
| "update_all f (iso_date # isos) seen =
     (case f iso_date of
        Inl e \<Rightarrow> Inl e
      | Inr ls \<Rightarrow> update_all f isos (seen \<union> ls))"

definition fetch_all_slots ::
  "(ustring \<Rightarrow> ustring) \<Rightarrow> int \<Rightarrow> int \<Rightarrow> (ustring \<Rightarrow> results_page) \<Rightarrow> nat \<Rightarrow> error + ustring list" where
  "fetch_all_slots nfc date_window_days search_attempts site today =
     (case iso_dates today date_window_days of
        Inl e \<Rightarrow> Inl e
      | Inr isos \<Rightarrow>
          (case update_all (\<lambda>iso_date. lines_for_date nfc search_attempts (site iso_date)) isos {} of
             Inl e \<Rightarrow> Inl e
           | Inr seen \<Rightarrow> Inr (sorted_list_of_set seen)))"

section \<open>Snapshot and e-mail helpers\<close>

text \<open>
  The world outside the process: the snapshot file \<open>slots_latest.txt\<close> (its text, or
  \<open>None\<close> when there is no such file) and what went over the network to the mail
  relay, in order.
\<close>

record email_message =
  subject :: ustring
  sender :: ustring
  recipient :: ustring
  body :: ustring

datatype net_action =
  Connect ustring int
  | StartTLS
  | Login ustring ustring
  | SendMessage email_message
  | Quit

record world =
  snap_file :: "ustring option"
  network :: "net_action list"

text \<open>
  \<open>str.splitlines()\<close>: \<open>cur\<close> is the line read so far, reversed. A line break ends a
  line, \<open>CR LF\<close> is one line break, and a text that ends with a line break has no
  empty last line.
\<close>

fun splitlines_aux :: "ustring \<Rightarrow> ustring \<Rightarrow> ustring list" where
  "splitlines_aux cur [] = (if cur = [] then [] else [rev cur])"
| "splitlines_aux cur (c # cs) =
     (if is_linebreak c then
        rev cur # (case cs of
                     d # ds \<Rightarrow> if c = CR \<and> d = LF then splitlines_aux [] ds
                               else splitlines_aux [] cs
                   | [] \<Rightarrow> splitlines_aux [] cs)
      else splitlines_aux (c # cur) cs)"

definition splitlines :: "ustring \<Rightarrow> ustring list" where
  "splitlines s = splitlines_aux [] s"

fun join :: "ustring \<Rightarrow> ustring list \<Rightarrow> ustring" where
  "join sep [] = []"
| "join sep [x] = x"
| "join sep (x # y # ys) = x @ sep @ join sep (y # ys)"

text \<open>
  \<^verbatim>\<open>
  def load_previous() -> Set[str]:
      try:
          raw = SNAP_PATH.read_text(encoding="utf-8")
          return {_canonical(l) for l in raw.splitlines()}
      except FileNotFoundError:
          return set()

  def save_current(lines: List[str]) -> None:
      SNAP_PATH.write_text("\n".join(lines), encoding="utf-8")
  \<close>
  Reading in text mode turns \<open>CR LF\<close> and \<open>CR\<close> into \<open>LF\<close>, which gives
  \<open>splitlines\<close> the same lines.
\<close>

definition load_previous :: "(ustring \<Rightarrow> ustring) \<Rightarrow> world \<Rightarrow> ustring set" where
  "load_previous nfc w =
     (case snap_file w of
        None \<Rightarrow> {}
      | Some raw \<Rightarrow> canonical nfc ` set (splitlines raw))"

definition save_current :: "ustring list \<Rightarrow> world \<Rightarrow> world" where
  "save_current lines w = w\<lparr>snap_file := Some (join [LF] lines)\<rparr>"

text \<open>
  The mail settings, each \<open>os.getenv(k)\<close>: \<open>None\<close> when the variable is not set.
  \<open>all(SMTP.values())\<close> asks every value to be true: neither \<open>None\<close> nor empty.
\<close>

record smtp_config =
  SMTP_HOST :: "ustring option"
  SMTP_PORT :: "ustring option"
  SMTP_USER :: "ustring option"
  SMTP_PASS :: "ustring option"
  SMTP_TO :: "ustring option"

definition truthy :: "ustring option \<Rightarrow> bool" where
  "truthy v \<longleftrightarrow> (case v of None \<Rightarrow> False | Some s \<Rightarrow> s \<noteq> [])"

definition smtp_values :: "smtp_config \<Rightarrow> ustring option list" where
  "smtp_values smtp = [SMTP_HOST smtp, SMTP_PORT smtp, SMTP_USER smtp, SMTP_PASS smtp, SMTP_TO smtp]"

text \<open>
  \<open>int(s)\<close> for a text \<open>s\<close>, base ten (CPython 3.11): whitespace around (ASCII
  whitespace, or any whitespace beyond ASCII), a sign, then decimal digits with single
  underscores between them, at most 4300 digits. Anything else is a \<open>ValueError\<close>.
\<close>

abbreviation UNDERSCORE :: nat where "UNDERSCORE \<equiv> 0x5F"

definition MAX_STR_DIGITS :: nat where
  "MAX_STR_DIGITS = 4300"

definition int_space :: "nat \<Rightarrow> bool" where
  "int_space c \<longleftrightarrow> (0x09 \<le> c \<and> c \<le> 0x0D) \<or> c = SPACE \<or> (127 \<le> c \<and> is_space c)"

fun double_underscore :: "ustring \<Rightarrow> bool" where
  "double_underscore (a # b # cs) = ((a = UNDERSCORE \<and> b = UNDERSCORE) \<or> double_underscore (b # cs))"
| "double_underscore _ = False"

definition digits_value :: "ustring \<Rightarrow> nat" where
  "digits_value ds =
     foldl (\<lambda>acc c. 10 * acc + (case decimal_value c of None \<Rightarrow> 0 | Some v \<Rightarrow> v)) 0 ds"

definition py_int :: "ustring \<Rightarrow> error + int" where
  "py_int s =
     (let s1 = dropWhile int_space s;
          negative = (s1 \<noteq> [] \<and> hd s1 = HYPHEN);
          s2 = (if s1 \<noteq> [] \<and> (hd s1 = 0x2B \<or> hd s1 = HYPHEN) then tl s1 else s1);
          digits = takeWhile (\<lambda>c. is_digit c \<or> c = UNDERSCORE) s2;
          rest = dropWhile (\<lambda>c. is_digit c \<or> c = UNDERSCORE) s2
      in if digits = [] \<or> hd digits = UNDERSCORE \<or> last digits = UNDERSCORE \<or>
            double_underscore digits \<or> MAX_STR_DIGITS < length (filter is_digit digits) \<or>
            \<not> list_all int_space rest
         then Inl ValueError
         else Inr ((if negative then - 1 else 1) * int (digits_value (filter is_digit digits))))"

text \<open>
  The message of \<open>send_email\<close>:
  \<^verbatim>\<open>
      msg = EmailMessage()
      msg["Subject"] = f"[Ravenair Cloud] {len(new_lines)} new booking slot(s)"
      msg["From"]    = SMTP["SMTP_USER"]
      msg["To"]      = SMTP["SMTP_TO"]
      msg.set_content("\n".join(new_lines))
  \<close>
  The \<open>email\<close> package parses the address headers when they are set, and raises at some
  values (\<open>IndexError\<close> at the address \<open>a@\<close>, \<open>ValueError\<close> at a line break). This is
  the library's part and a parameter of \<open>send_email\<close>: \<open>compose_error msg\<close> is the
  exception that composing \<open>msg\<close> raises, if any.
\<close>

definition new_slots_message :: "ustring \<Rightarrow> ustring \<Rightarrow> ustring list \<Rightarrow> email_message" where
  "new_slots_message user rcpt new_lines =
     \<lparr>subject = ustr ''[Ravenair Cloud] '' @ str_nat (length new_lines) @
                 ustr '' new booking slot(s)'',
      sender = user, recipient = rcpt, body = join [LF] new_lines\<rparr>"

text \<open>
  Where \<open>smtplib.SMTP(host, port)\<close> connects to (\<open>SMTP.connect\<close>): with the port 0, a
  host with one colon is split into host and port (\<open>OSError\<close> when that port is not a
  number), and a port that is still 0 becomes the default port 25.
\<close>

definition connect_endpoint :: "ustring \<Rightarrow> int \<Rightarrow> error + ustring \<times> int" where
  "connect_endpoint host port =
     (if port = 0 \<and> count_list host COLON = 1 then
        (case py_int (tl (dropWhile (\<lambda>c. c \<noteq> COLON) host)) of
           Inl e \<Rightarrow> Inl OSError
         | Inr p \<Rightarrow> Inr (takeWhile (\<lambda>c. c \<noteq> COLON) host, if p = 0 then 25 else p))
      else Inr (host, if port = 0 then 25 else port))"

text \<open>
  The SMTP session. \<open>relay a\<close> tells whether the relay lets the action \<open>a\<close> succeed;
  an action that fails raises (here \<open>DeliveryError\<close>, for whatever \<open>smtplib\<close> or the
  socket raise), and leaving the \<open>with\<close> block says \<open>QUIT\<close> on every path.
\<close>

fun run_actions :: "(net_action \<Rightarrow> bool) \<Rightarrow> net_action list \<Rightarrow> world \<Rightarrow> (error + unit) \<times> world" where
  "run_actions relay [] w = (Inr (), w)"
| "run_actions relay (a # as) w =
     (let w' = w\<lparr>network := network w @ [a]\<rparr>
      in if relay a then run_actions relay as w' else (Inl DeliveryError, w'))"

text \<open>
  \<^verbatim>\<open>
  def send_email(new_lines: List[str]) -> None:
      if not new_lines or not all(SMTP.values()):
          return
      msg = EmailMessage()
      ...
      with smtplib.SMTP(SMTP["SMTP_HOST"], int(SMTP["SMTP_PORT"]), timeout=30) as s:
          s.starttls(context=ssl.create_default_context())
          s.login(SMTP["SMTP_USER"], SMTP["SMTP_PASS"])
          s.send_message(msg)
  \<close>
  The message is composed first; the arguments of \<open>smtplib.SMTP\<close> are evaluated before
  it connects. Past the first test all five settings are texts; the last case below is
  never reached.
\<close>

definition send_email ::
  "smtp_config \<Rightarrow> (email_message \<Rightarrow> error option) \<Rightarrow> (net_action \<Rightarrow> bool) \<Rightarrow> ustring list \<Rightarrow>
   world \<Rightarrow> (error + unit) \<times> world" where
  "send_email smtp compose_error relay new_lines w =
     (if new_lines = [] \<or> \<not> list_all truthy (smtp_values smtp) then (Inr (), w)
      else
        (case (SMTP_HOST smtp, SMTP_PORT smtp, SMTP_USER smtp, SMTP_PASS smtp, SMTP_TO smtp) of
           (Some host, Some port, Some user, Some pass, Some rcpt) \<Rightarrow>
             let msg = new_slots_message user rcpt new_lines
             in (case compose_error msg of
                   Some e \<Rightarrow> (Inl e, w)
                 | None \<Rightarrow>
             (case py_int port of
                   Inl e \<Rightarrow> (Inl e, w)
                 | Inr port_number \<Rightarrow>
             (case connect_endpoint host port_number of
                   Inl e \<Rightarrow> (Inl e, w)
                 | Inr (h, p) \<Rightarrow>
             (case run_actions relay [Connect h p] w of
                   (Inl e, w1) \<Rightarrow> (Inl e, w1)
                 | (Inr _, w1) \<Rightarrow>
                     (case run_actions relay [StartTLS, Login user pass, SendMessage msg] w1 of
                        (r, w2) \<Rightarrow> (r, w2\<lparr>network := network w2 @ [Quit]\<rparr>))))))
         | _ \<Rightarrow> (Inl TypeError, w)))"

section \<open>Main\<close>

text \<open>
  \<^verbatim>\<open>
  async def main() -> None:
      current = await fetch_all_slots()
      prev    = load_previous()
      new     = [ln for ln in current if ln not in prev]
      send_email(new)
      save_current(current)
  \<close>
  (then the summary is printed). The configuration is what the module reads from the
  environment when it is loaded.
\<close>

record config =
  DATE_WINDOW_DAYS :: int
  SEARCH_ATTEMPTS :: int
  SMTP :: smtp_config

definition new_lines_of :: "ustring list \<Rightarrow> ustring set \<Rightarrow> ustring list" where
  "new_lines_of current prev = [ln \<leftarrow> current. ln \<notin> prev]"

definition main ::
  "(ustring \<Rightarrow> ustring) \<Rightarrow> config \<Rightarrow> (email_message \<Rightarrow> error option) \<Rightarrow> (net_action \<Rightarrow> bool) \<Rightarrow>
   (ustring \<Rightarrow> results_page) \<Rightarrow> nat \<Rightarrow> world \<Rightarrow> (error + unit) \<times> world" where
  "main nfc cfg compose_error relay site today w =
     (case fetch_all_slots nfc (DATE_WINDOW_DAYS cfg) (SEARCH_ATTEMPTS cfg) site today of
        Inl e \<Rightarrow> (Inl e, w)
      | Inr current \<Rightarrow>
          let prev = load_previous nfc w;
              new = new_lines_of current prev
          in (case send_email (SMTP cfg) compose_error relay new w of
                (Inl e, w1) \<Rightarrow> (Inl e, w1)
              | (Inr _, w1) \<Rightarrow> (Inr (), save_current current w1)))"

section \<open>Predicates of the specification\<close>

text \<open>
  \<open>ws_norm s\<close>: the only whitespace of \<open>s\<close> is the space, and no two spaces are
  adjacent. These are the texts that \<open>ws_re_sub\<close> leaves as they are.
\<close>

fun ws_norm :: "ustring \<Rightarrow> bool" where
  "ws_norm [] = True"
| "ws_norm [c] = (is_space c \<longrightarrow> c = SPACE)"
| "ws_norm (c # d # cs) = ((is_space c \<longrightarrow> c = SPACE \<and> \<not> is_space d) \<and> ws_norm (d # cs))"

text \<open>
  The pattern \<open>HH:MM-HH:MM\<close> in words: somewhere in the text, two digits, a colon and
  two digits, twice, with a hyphen in between that may have whitespace on either side.
\<close>

definition hhmm :: "ustring \<Rightarrow> bool" where
  "hhmm x \<longleftrightarrow>
     (\<exists>a b c d. x = [a, b, COLON, c, d] \<and> is_digit a \<and> is_digit b \<and> is_digit c \<and> is_digit d)"

definition time_pattern :: "ustring \<Rightarrow> bool" where
  "time_pattern t \<longleftrightarrow>
     (\<exists>pre x ws1 ws2 y post.
        t = pre @ x @ ws1 @ [HYPHEN] @ ws2 @ y @ post \<and> hhmm x \<and> hhmm y \<and>
        list_all is_space ws1 \<and> list_all is_space ws2)"

text \<open>
  The long form of a date in words: the name of a month, whitespace, a day of one or two
  digits, a comma, whitespace, and a year of four digits.
\<close>

definition long_form_date :: "ustring \<Rightarrow> bool" where
  "long_form_date s \<longleftrightarrow>
     (\<exists>month ws1 day ws2 year.
        s = month @ ws1 @ day @ [COMMA] @ ws2 @ year \<and>
        map lower_ascii month \<in> set month_names \<and>
        ws1 \<noteq> [] \<and> list_all is_space ws1 \<and>
        (length day = 1 \<or> length day = 2) \<and> list_all is_digit day \<and>
        ws2 \<noteq> [] \<and> list_all is_space ws2 \<and>
        length year = 4 \<and> list_all is_digit year)"


section \<open>Properties of the canonical helpers\<close>

lemma is_space_SPACE [simp]: "is_space SPACE"
  by (simp add: is_space_def)

lemma not_space_HYPHEN [simp]: "\<not> is_space HYPHEN"
  by (simp add: is_space_def)

lemma dropWhile_self_iff: "dropWhile P xs = xs \<longleftrightarrow> xs = [] \<or> \<not> P (hd xs)"
proof (cases xs)
  case Nil
  then show ?thesis by simp
next
  case (Cons x ys)
  show ?thesis
  proof (cases "P x")
    case True
    have "length (dropWhile P ys) \<le> length ys" by (rule length_dropWhile_le)
    then have "dropWhile P ys \<noteq> x # ys" by auto
    with True Cons show ?thesis by simp
  next
    case False
    with Cons show ?thesis by simp
  qed
qed

lemma ws_re_sub_hd: "s = [] \<or> \<not> is_space (hd s) \<Longrightarrow> ws_re_sub s = [] \<or> \<not> is_space (hd (ws_re_sub s))"
  by (cases s) auto

lemma hd_dropWhile_space: "dropWhile is_space s = [] \<or> \<not> is_space (hd (dropWhile is_space s))"
  using hd_dropWhile [of is_space s] by blast

lemma ws_norm_ws_re_sub: "ws_norm (ws_re_sub s)"
proof (induction s rule: ws_re_sub.induct)
  case 1
  then show ?case by simp
next
  case (2 c cs)
  show ?case
  proof (cases "is_space c")
    case True
    let ?r = "ws_re_sub (dropWhile is_space cs)"
    have hd: "?r = [] \<or> \<not> is_space (hd ?r)"
      by (rule ws_re_sub_hd) (rule hd_dropWhile_space)
    from 2 True have "ws_norm ?r" by simp
    with hd True show ?thesis by (cases ?r) auto
  next
    case False
    with 2 have "ws_norm (ws_re_sub cs)" by simp
    with False show ?thesis by (cases "ws_re_sub cs") auto
  qed
qed

lemma ws_norm_fixed: "ws_norm s \<Longrightarrow> ws_re_sub s = s"
proof (induction s rule: ws_norm.induct)
  case 1
  then show ?case by simp
next
  case (2 c)
  then show ?case by simp
next
  case (3 c d cs)
  then show ?case by auto
qed

lemma ws_norm_tl: "ws_norm (c # cs) \<Longrightarrow> ws_norm cs"
  by (cases cs) auto

lemma ws_norm_dropWhile: "ws_norm s \<Longrightarrow> ws_norm (dropWhile P s)"
  by (induction s) (auto dest: ws_norm_tl)

lemma ws_norm_prefix: "ws_norm (xs @ ys) \<Longrightarrow> ws_norm xs"
proof (induction xs rule: ws_norm.induct)
  case 1
  then show ?case by simp
next
  case (2 c)
  then show ?case by (cases ys) auto
next
  case (3 c d cs)
  then show ?case by auto
qed

lemma rev_dropWhile_rev_prefix:
  "rev (dropWhile P (rev s)) @ rev (takeWhile P (rev s)) = s"
proof -
  have "rev (takeWhile P (rev s) @ dropWhile P (rev s)) = s" by simp
  then show ?thesis by (simp only: rev_append)
qed

lemma ws_norm_strip: "ws_norm s \<Longrightarrow> ws_norm (strip s)"
proof -
  assume "ws_norm s"
  then have d: "ws_norm (dropWhile is_space s)" by (rule ws_norm_dropWhile)
  let ?d = "dropWhile is_space s"
  have "rev (dropWhile is_space (rev ?d)) @ rev (takeWhile is_space (rev ?d)) = ?d"
    by (rule rev_dropWhile_rev_prefix)
  with d have "ws_norm (rev (dropWhile is_space (rev ?d)) @ rev (takeWhile is_space (rev ?d)))"
    by simp
  then show ?thesis unfolding strip_def by (rule ws_norm_prefix)
qed

text \<open>A stripped text neither starts nor ends with whitespace.\<close>

lemma strip_last: "strip s = [] \<or> \<not> is_space (last (strip s))"
proof -
  let ?e = "dropWhile is_space (rev (dropWhile is_space s))"
  have "?e = [] \<or> \<not> is_space (hd ?e)" by (rule hd_dropWhile_space)
  then show ?thesis unfolding strip_def by (auto simp: last_rev)
qed

lemma strip_hd: "strip s = [] \<or> \<not> is_space (hd (strip s))"
proof (cases "strip s = []")
  case True
  then show ?thesis by simp
next
  case False
  let ?d = "dropWhile is_space s"
  have pre: "strip s @ rev (takeWhile is_space (rev ?d)) = ?d"
    unfolding strip_def by (rule rev_dropWhile_rev_prefix)
  with False have "?d \<noteq> []" by (metis Nil_is_append_conv)
  moreover have "?d = [] \<or> \<not> is_space (hd ?d)" by (rule hd_dropWhile_space)
  ultimately have "\<not> is_space (hd ?d)" by blast
  moreover from pre False have "hd ?d = hd (strip s)"
    by (metis hd_append2)
  ultimately show ?thesis by simp
qed

lemma strip_fixed:
  assumes "s = [] \<or> (\<not> is_space (hd s) \<and> \<not> is_space (last s))"
  shows "strip s = s"
proof (cases "s = []")
  case True
  then show ?thesis by (simp add: strip_def)
next
  case False
  with assms have h: "\<not> is_space (hd s)" and l: "\<not> is_space (last s)" by simp_all
  from h have 1: "dropWhile is_space s = s" by (simp add: dropWhile_self_iff)
  from l False have "\<not> is_space (hd (rev s))" by (simp add: hd_rev)
  then have 2: "dropWhile is_space (rev s) = rev s" by (simp add: dropWhile_self_iff)
  show ?thesis by (simp add: strip_def 1 2)
qed

lemma set_ws_re_sub: "set (ws_re_sub s) \<subseteq> insert SPACE (set s)"
proof (induction s rule: ws_re_sub.induct)
  case 1
  then show ?case by simp
next
  case (2 c cs)
  have "set (dropWhile is_space cs) \<subseteq> set cs" by (rule set_dropWhileD [THEN subsetI])
  with 2 show ?case by (cases "is_space c") auto
qed

lemma set_strip: "set (strip s) \<subseteq> set s"
proof -
  have "set (dropWhile is_space (rev (dropWhile is_space s))) \<subseteq> set (rev (dropWhile is_space s))"
    by (rule set_dropWhileD [THEN subsetI])
  moreover have "set (dropWhile is_space s) \<subseteq> set s"
    by (rule set_dropWhileD [THEN subsetI])
  ultimately show ?thesis by (auto simp: strip_def)
qed

lemma replace_absent: "old \<notin> set s \<Longrightarrow> replace old new s = s"
  by (induction s) (auto simp: replace_def)

lemma set_replace: "old \<noteq> new \<Longrightarrow> old \<notin> set (replace old new s)"
  by (auto simp: replace_def)

lemma set_replace_subset: "set (replace old new s) \<subseteq> insert new (set s)"
  by (auto simp: replace_def)

text \<open>
  The three rewriting steps of \<open>_canonical\<close> after the normalisation; what they return
  has no dash left, only single spaces as whitespace, and no whitespace at its ends,
  so that they change nothing when applied to it again.
\<close>

lemma dashes_gone:
  "EN_DASH \<notin> set (strip (ws_re_sub (replace EM_DASH HYPHEN (replace EN_DASH HYPHEN t))))"
  "EM_DASH \<notin> set (strip (ws_re_sub (replace EM_DASH HYPHEN (replace EN_DASH HYPHEN t))))"
proof -
  let ?r1 = "replace EN_DASH HYPHEN t"
  let ?r = "replace EM_DASH HYPHEN ?r1"
  have 1: "EN_DASH \<notin> set ?r1" by (rule set_replace) simp
  have "set ?r \<subseteq> insert HYPHEN (set ?r1)" by (rule set_replace_subset)
  with 1 have 2: "EN_DASH \<notin> set ?r" by auto
  have 3: "EM_DASH \<notin> set ?r" by (rule set_replace) simp
  have sub: "set (strip (ws_re_sub ?r)) \<subseteq> insert SPACE (set ?r)"
    using set_strip [of "ws_re_sub ?r"] set_ws_re_sub [of ?r] by blast
  from sub 2 show "EN_DASH \<notin> set (strip (ws_re_sub ?r))" by auto
  from sub 3 show "EM_DASH \<notin> set (strip (ws_re_sub ?r))" by auto
qed

lemma rewrite_fixed:
  assumes "EN_DASH \<notin> set s" "EM_DASH \<notin> set s" "ws_norm s"
    and "s = [] \<or> (\<not> is_space (hd s) \<and> \<not> is_space (last s))"
  shows "strip (ws_re_sub (replace EM_DASH HYPHEN (replace EN_DASH HYPHEN s))) = s"
  using assms by (simp add: replace_absent ws_norm_fixed strip_fixed)

lemma rewrite_rewrite:
  "strip (ws_re_sub (replace EM_DASH HYPHEN (replace EN_DASH HYPHEN
     (strip (ws_re_sub (replace EM_DASH HYPHEN (replace EN_DASH HYPHEN t))))))) =
   strip (ws_re_sub (replace EM_DASH HYPHEN (replace EN_DASH HYPHEN t)))"
proof (rule rewrite_fixed)
  let ?s = "strip (ws_re_sub (replace EM_DASH HYPHEN (replace EN_DASH HYPHEN t)))"
  show "EN_DASH \<notin> set ?s" by (rule dashes_gone)
  show "EM_DASH \<notin> set ?s" by (rule dashes_gone)
  show "ws_norm ?s" by (rule ws_norm_strip) (rule ws_norm_ws_re_sub)
  show "?s = [] \<or> (\<not> is_space (hd ?s) \<and> \<not> is_space (last ?s))"
    using strip_hd [of "ws_re_sub (replace EM_DASH HYPHEN (replace EN_DASH HYPHEN t))"]
      strip_last [of "ws_re_sub (replace EM_DASH HYPHEN (replace EN_DASH HYPHEN t))"]
    by blast
qed

section \<open>Properties of the card parser\<close>

text \<open>The digits and the whitespace of the tables above are apart.\<close>

lemma space_values: "is_space c \<Longrightarrow> c \<in> set [0x09, 0x0A, 0x0B, 0x0C, 0x0D, 0x1C, 0x1D, 0x1E, 0x1F, 0x20, 0x85, 0xA0, 0x1680, 0x2000, 0x2001, 0x2002, 0x2003, 0x2004, 0x2005, 0x2006, 0x2007, 0x2008, 0x2009, 0x200A, 0x2028, 0x2029, 0x202F, 0x205F, 0x3000]"
  unfolding is_space_def by (simp del: One_nat_def) arith

lemma space_values_not_digit: "\<forall>c \<in> set [0x09, 0x0A, 0x0B, 0x0C, 0x0D, 0x1C, 0x1D, 0x1E, 0x1F, 0x20, 0x85, 0xA0, 0x1680, 0x2000, 0x2001, 0x2002, 0x2003, 0x2004, 0x2005, 0x2006, 0x2007, 0x2008, 0x2009, 0x200A, 0x2028, 0x2029, 0x202F, 0x205F, 0x3000::nat]. \<not> is_digit c"
  by (simp add: is_digit_def decimal_value_def nd_starts_def)

lemma digit_not_space: "is_digit c \<Longrightarrow> \<not> is_space c"
  using space_values [of c] space_values_not_digit by blast

lemma match_hhmm_complete: "hhmm x \<Longrightarrow> match_hhmm (x @ r) = Some (x, r)"
  by (auto simp: hhmm_def)

lemma match_hhmm_sound: "match_hhmm s = Some (x, r) \<Longrightarrow> s = x @ r \<and> hhmm x"
  by (induction s rule: match_hhmm.induct) (auto simp: hhmm_def split: if_splits)

lemma dropWhile_spaces: "list_all is_space ws \<Longrightarrow> \<not> is_space c \<Longrightarrow> dropWhile is_space (ws @ c # r) = c # r"
  by (induction ws) auto

lemma hhmm_hd: "hhmm y \<Longrightarrow> \<exists>c r. y = c # r \<and> \<not> is_space c"
  by (auto simp: hhmm_def digit_not_space)

lemma time_re_match_complete:
  assumes "hhmm x" "hhmm y" "list_all is_space ws1" "list_all is_space ws2"
  shows "time_re_match (x @ ws1 @ [HYPHEN] @ ws2 @ y @ post) = Some (x, y)"
proof -
  from \<open>hhmm y\<close> obtain c r where y: "y = c # r" and c: "\<not> is_space c" using hhmm_hd by blast
  have 1: "match_hhmm (x @ ws1 @ [HYPHEN] @ ws2 @ y @ post) = Some (x, ws1 @ [HYPHEN] @ ws2 @ y @ post)"
    using assms(1) by (rule match_hhmm_complete)
  have 2: "dropWhile is_space (ws1 @ [HYPHEN] @ ws2 @ y @ post) = HYPHEN # ws2 @ y @ post"
    using dropWhile_spaces [OF assms(3) not_space_HYPHEN] by simp
  have 3: "dropWhile is_space (ws2 @ y @ post) = y @ post"
    using dropWhile_spaces [OF assms(4) c, of "r @ post"] y by simp
  have 4: "match_hhmm (y @ post) = Some (y, post)"
    using assms(2) by (rule match_hhmm_complete)
  show ?thesis using 1 2 3 4 by (simp add: time_re_match_def)
qed

lemma time_re_match_sound:
  assumes "time_re_match s = Some (x, y)"
  shows "\<exists>ws1 ws2 post. s = x @ ws1 @ [HYPHEN] @ ws2 @ y @ post \<and> hhmm x \<and> hhmm y \<and>
           list_all is_space ws1 \<and> list_all is_space ws2"
proof -
  from assms obtain r1 r2 post where
    1: "match_hhmm s = Some (x, r1)" and 2: "dropWhile is_space r1 = HYPHEN # r2"
    and 3: "match_hhmm (dropWhile is_space r2) = Some (y, post)"
    by (auto simp: time_re_match_def split: option.splits list.splits if_splits)
  from 1 have s: "s = x @ r1" and x: "hhmm x" using match_hhmm_sound by blast+
  from 3 have d: "dropWhile is_space r2 = y @ post" and y: "hhmm y" using match_hhmm_sound by blast+
  have r1: "r1 = takeWhile is_space r1 @ [HYPHEN] @ r2"
    using takeWhile_dropWhile_id [of is_space r1] 2 by simp
  have r2: "r2 = takeWhile is_space r2 @ y @ post"
    using takeWhile_dropWhile_id [of is_space r2] d by simp
  have "s = x @ takeWhile is_space r1 @ [HYPHEN] @ takeWhile is_space r2 @ y @ post"
    using s r1 r2 by simp
  moreover have "list_all is_space (takeWhile is_space r1)" "list_all is_space (takeWhile is_space r2)"
    by (auto simp: list_all_iff dest: set_takeWhileD)
  ultimately show ?thesis using x y by blast
qed

lemma time_re_search_complete:
  "time_re_match m = Some g \<Longrightarrow> time_re_search (pre @ m) \<noteq> None"
proof (induction pre)
  case Nil
  then show ?case by (cases m) (auto simp: time_re_match_def)
next
  case (Cons c pre)
  then show ?case by (auto split: option.splits)
qed

lemma time_re_search_sound:
  "time_re_search t = Some (x, y) \<Longrightarrow> \<exists>pre m. t = pre @ m \<and> time_re_match m = Some (x, y)"
proof (induction t)
  case Nil
  then show ?case by simp
next
  case (Cons c cs)
  show ?case
  proof (cases "time_re_match (c # cs)")
    case None
    with Cons obtain pre m where "cs = pre @ m" "time_re_match m = Some (x, y)" by auto
    then have "c # cs = (c # pre) @ m \<and> time_re_match m = Some (x, y)" by simp
    then show ?thesis by blast
  next
    case (Some g)
    with Cons.prems have "time_re_match (c # cs) = Some (x, y)" by simp
    then have "c # cs = [] @ (c # cs) \<and> time_re_match (c # cs) = Some (x, y)" by simp
    then show ?thesis by blast
  qed
qed

lemma time_re_search_iff: "time_re_search t \<noteq> None \<longleftrightarrow> time_pattern t"
proof
  assume "time_re_search t \<noteq> None"
  then obtain x y where "time_re_search t = Some (x, y)" by auto
  then obtain pre m where t: "t = pre @ m" and m: "time_re_match m = Some (x, y)"
    using time_re_search_sound by blast
  from time_re_match_sound [OF m] obtain ws1 ws2 post where
    "m = x @ ws1 @ [HYPHEN] @ ws2 @ y @ post" "hhmm x" "hhmm y"
    "list_all is_space ws1" "list_all is_space ws2" by blast
  with t have "t = pre @ x @ ws1 @ [HYPHEN] @ ws2 @ y @ post \<and> hhmm x \<and> hhmm y \<and>
    list_all is_space ws1 \<and> list_all is_space ws2" by blast
  then show "time_pattern t"
    unfolding time_pattern_def by blast
next
  assume "time_pattern t"
  then obtain pre x ws1 ws2 y post where
    t: "t = pre @ x @ ws1 @ [HYPHEN] @ ws2 @ y @ post" and h: "hhmm x" "hhmm y"
    and w: "list_all is_space ws1" "list_all is_space ws2"
    unfolding time_pattern_def by blast
  from time_re_match_complete [OF h w] t show "time_re_search t \<noteq> None"
    using time_re_search_complete by blast
qed

lemma strptime_error: "strptime s = Inl e \<Longrightarrow> e = ValueError"
  by (auto simp: strptime_def split: option.splits list.splits if_splits prod.splits)

lemma normalise_date_error: "normalise_date raw = Inl e \<Longrightarrow> e = ValueError"
  by (auto simp: normalise_date_def split: sum.splits dest: strptime_error)

lemma card_to_line_None:
  "card_to_line nfc c = Inr None \<longleftrightarrow>
     date_span c = None \<or> time_span c = None \<or> (\<exists>t. time_span c = Some t \<and> time_re_search t = None)"
  by (auto simp: card_to_line_def Let_def split: option.splits sum.splits prod.splits)

lemma card_to_line_bad_date:
  "date_span c = Some d \<Longrightarrow> time_span c = Some t \<Longrightarrow> time_re_search t \<noteq> None \<Longrightarrow>
   isl (normalise_date d) \<Longrightarrow> card_to_line nfc c = Inl ValueError"
  by (auto simp: card_to_line_def isl_def split: option.splits dest: normalise_date_error)

lemma card_to_line_no_heading:
  "date_span c = Some d \<Longrightarrow> time_span c = Some t \<Longrightarrow> time_re_search t \<noteq> None \<Longrightarrow>
   \<not> isl (normalise_date d) \<Longrightarrow> previous_h3 c = None \<Longrightarrow> card_to_line nfc c = Inl AttributeError"
  by (auto simp: card_to_line_def isl_def split: option.splits sum.splits)


text \<open>Evaluating the parser on ASCII text.\<close>

lemma is_digit_ascii: "c < 0x660 \<Longrightarrow> is_digit c \<longleftrightarrow> 0x30 \<le> c \<and> c \<le> 0x39"
  by (auto simp: is_digit_def decimal_value_def nd_starts_def)

lemma decimal_value_ascii: "0x30 \<le> c \<Longrightarrow> c \<le> 0x39 \<Longrightarrow> decimal_value c = Some (c - 0x30)"
  by (simp add: decimal_value_def nd_starts_def)

lemmas parser_eval =
  card_to_line_def ustr_def time_re_match_def is_digit_ascii decimal_value_ascii is_space_def
  normalise_date_def strptime_def strip_def match_month_def month_names_def lower_ascii_def
  ws_plus_def days_in_month_def DAYS_IN_MONTH_def is_leap_def strftime_def pad2_def
  str_nat.simps get_text_strip_def canonical_def replace_def

text \<open>A date text that \<open>strptime\<close> accepts has the long form.\<close>

lemma match_month_sound:
  assumes "match_month s = Some (m, r)"
  shows "\<exists>month. s = month @ r \<and> map lower_ascii month \<in> set month_names"
proof -
  from assms obtain name where
    f: "find (\<lambda>(m, name). map lower_ascii (take (length name) s) = name) (enumerate 1 month_names)
        = Some (m, name)" and r: "r = drop (length name) s"
    by (auto simp: match_month_def split: option.splits)
  from f have "(m, name) \<in> set (enumerate 1 month_names)"
    and "map lower_ascii (take (length name) s) = name"
    by (auto simp: find_Some_iff in_set_conv_nth)
  then have "name \<in> set month_names" by (auto simp: in_set_enumerate_eq)
  with \<open>map lower_ascii (take (length name) s) = name\<close> r
  have "s = take (length name) s @ r \<and> map lower_ascii (take (length name) s) \<in> set month_names"
    by simp
  then show ?thesis by blast
qed

lemma ws_plus_sound:
  assumes "ws_plus r = Some r'"
  shows "\<exists>ws. r = ws @ r' \<and> ws \<noteq> [] \<and> list_all is_space ws \<and> (r' = [] \<or> \<not> is_space (hd r'))"
proof -
  from assms obtain c cs where r: "r = c # cs" and c: "is_space c" and r': "r' = dropWhile is_space cs"
    by (auto simp: ws_plus_def split: list.splits if_splits)
  have "r = (c # takeWhile is_space cs) @ r'" using r r' by simp
  moreover have "list_all is_space (c # takeWhile is_space cs)"
    using c by (auto simp: list_all_iff dest: set_takeWhileD)
  moreover have "r' = [] \<or> \<not> is_space (hd r')" unfolding r' by (rule hd_dropWhile_space)
  ultimately show ?thesis by blast
qed

lemma ascii_digit: "0x30 \<le> c \<Longrightarrow> c \<le> 0x39 \<Longrightarrow> is_digit c"
  by (simp add: is_digit_ascii)

lemma match_day_sound:
  assumes "match_day r = Some (d, r')" "r = [] \<or> \<not> is_space (hd r)"
  shows "\<exists>day. r = day @ r' \<and> (length day = 1 \<or> length day = 2) \<and> list_all is_digit day"
proof (cases r rule: match_day.cases)
  case (1 a b rest)
  from assms(2) 1 have ns: "a \<noteq> SPACE" by auto
  from assms(1) 1 ns consider
    (two) "r' = rest" "is_digit a" "is_digit b" | (one) "r' = b # rest" "is_digit a"
    by (auto simp: ascii_digit split: if_splits option.splits)
  then show ?thesis
  proof cases
    case two
    with 1 have "r = [a, b] @ r' \<and> (length [a, b] = 1 \<or> length [a, b] = 2) \<and> list_all is_digit [a, b]"
      by simp
    then show ?thesis by blast
  next
    case one
    with 1 have "r = [a] @ r' \<and> (length [a] = 1 \<or> length [a] = 2) \<and> list_all is_digit [a]"
      by simp
    then show ?thesis by blast
  qed
next
  case (2 a)
  with assms(1) have "r = [a] @ r' \<and> (length [a] = 1 \<or> length [a] = 2) \<and> list_all is_digit [a]"
    by (auto simp: ascii_digit split: if_splits)
  then show ?thesis by blast
next
  case 3
  with assms(1) show ?thesis by simp
qed

lemma match_year_sound:
  assumes "match_year r = Some (y, r')"
  shows "\<exists>year. r = year @ r' \<and> length year = 4 \<and> list_all is_digit year"
proof (cases r rule: match_year.cases)
  case (1 a b c d rest)
  with assms have "r = [a, b, c, d] @ r' \<and> length [a, b, c, d] = 4 \<and> list_all is_digit [a, b, c, d]"
    by (auto simp: is_digit_def split: option.splits)
  then show ?thesis by blast
qed (use assms in simp_all)

lemma strptime_long_form:
  assumes "strptime s = Inr ymd"
  shows "long_form_date s"
proof -
  from assms obtain m r1 r2 d r3 r4 r5 y where
    1: "match_month s = Some (m, r1)" and 2: "ws_plus r1 = Some r2"
    and 3: "match_day r2 = Some (d, r3)" and 4: "r3 = COMMA # r4"
    and 5: "ws_plus r4 = Some r5" and 6: "match_year r5 = Some (y, [])"
    by (auto simp: strptime_def split: option.splits list.splits if_splits prod.splits)
  from match_month_sound [OF 1] obtain month where
    a: "s = month @ r1" "map lower_ascii month \<in> set month_names" by blast
  from ws_plus_sound [OF 2] obtain ws1 where
    b: "r1 = ws1 @ r2" "ws1 \<noteq> []" "list_all is_space ws1" "r2 = [] \<or> \<not> is_space (hd r2)" by blast
  from match_day_sound [OF 3 b(4)] obtain day where
    c: "r2 = day @ r3" "length day = 1 \<or> length day = 2" "list_all is_digit day" by blast
  from ws_plus_sound [OF 5] obtain ws2 where
    d: "r4 = ws2 @ r5" "ws2 \<noteq> []" "list_all is_space ws2" by blast
  from match_year_sound [OF 6] obtain year where
    e: "r5 = year @ []" "length year = 4" "list_all is_digit year" by blast
  have "s = month @ ws1 @ day @ [COMMA] @ ws2 @ year"
    using a(1) b(1) c(1) 4 d(1) e(1) by simp
  with a(2) b(2,3) c(2,3) d(2,3) e(2,3) show ?thesis
    unfolding long_form_date_def by blast
qed

lemma not_long_form_raises: "\<not> long_form_date (strip raw) \<Longrightarrow> isl (normalise_date raw)"
  using strptime_long_form [of "strip raw"]
  by (cases "strptime (strip raw)") (auto simp: normalise_date_def)


text \<open>An exception raised at a card ends the run.\<close>

lemma map_result_error: "x \<in> set xs \<Longrightarrow> isl (f x) \<Longrightarrow> isl (map_result f xs)"
  by (induction xs) (auto split: sum.splits)

lemma html_to_lines_error:
  "c \<in> set cards \<Longrightarrow> isl (card_to_line nfc c) \<Longrightarrow> isl (html_to_lines nfc cards)"
  using map_result_error [of c cards "card_to_line nfc"]
  by (auto simp: html_to_lines_def split: sum.splits)

lemma lines_for_date_error:
  "in_picker pg \<Longrightarrow> 0 < search_attempts \<Longrightarrow> isl (html_to_lines nfc (content pg 0)) \<Longrightarrow>
   isl (lines_for_date nfc search_attempts pg)"
proof -
  assume a: "in_picker pg" "0 < search_attempts" "isl (html_to_lines nfc (content pg 0))"
  from a(2) obtain r where "nat search_attempts = Suc r" by (cases "nat search_attempts") auto
  with a(1,3) show ?thesis by (auto simp: lines_for_date_def split: sum.splits)
qed

lemma update_all_error: "x \<in> set xs \<Longrightarrow> isl (f x) \<Longrightarrow> isl (update_all f xs seen)"
  by (induction xs arbitrary: seen) (auto split: sum.splits)

lemma fetch_all_slots_error:
  assumes "iso_dates today n = Inr isos" "d \<in> set isos"
    and "isl (lines_for_date nfc k (site d))"
  shows "isl (fetch_all_slots nfc n k site today)"
  using assms update_all_error [of d isos "\<lambda>iso_date. lines_for_date nfc k (site iso_date)" "{}"]
  by (auto simp: fetch_all_slots_def split: sum.splits)

lemma main_fetch_error:
  "isl (fetch_all_slots nfc (DATE_WINDOW_DAYS cfg) (SEARCH_ATTEMPTS cfg) site today) \<Longrightarrow>
   isl (fst (main nfc cfg compose_error relay site today w)) \<and> snd (main nfc cfg compose_error relay site today w) = w"
  by (auto simp: main_def split: sum.splits)

text \<open>
  The fallback title is reached when the heading is there and has no text; and the first
  date of a window of one day.
\<close>

lemma card_with_empty_heading:
  "card_to_line id \<lparr>date_span = Some (ustr ''June 01, 2025''),
     time_span = Some (ustr ''08:00-09:00''), previous_h3 = Some [ustr '' '']\<rparr> =
   Inr (Some (ustr ''2025-06-01 08:00-09:00 - Unknown booking''))"
  by (simp add: parser_eval)

lemma iso_dates_example: "iso_dates 739403 0 = Inr [ustr ''2025-06-01'']"
  by (simp add: iso_dates_def py_range_def date_add_def MAXORDINAL_def ord2ymd_def
      DAYS_BEFORE_MONTH_def DAYS_IN_MONTH_def strftime_def pad2_def str_nat.simps ustr_def Let_def)

section \<open>Properties of the browser driver\<close>

lemma map_result_ok:
  "(\<And>x. x \<in> set xs \<Longrightarrow> f x = Inr (g x)) \<Longrightarrow> map_result f xs = Inr (map g xs)"
  by (induction xs) auto

lemma map_result_length: "map_result f xs = Inr ys \<Longrightarrow> length ys = length xs"
  by (induction xs arbitrary: ys) (auto split: sum.splits)

lemma iso_dates_window:
  assumes "0 < today" "today + nat n \<le> MAXORDINAL"
  shows "iso_dates today n = Inr (map (\<lambda>i. strftime (ord2ymd (today + i))) [0..<nat (n + 1)])"
  unfolding iso_dates_def py_range_def
proof (rule map_result_ok)
  fix i
  assume "i \<in> set [0..<nat (n + 1)]"
  then have "i \<le> nat n" by auto
  with assms have "0 < today + i \<and> today + i \<le> MAXORDINAL" by simp
  then show "(case date_add today i of Inl e \<Rightarrow> Inl e | Inr d \<Rightarrow> Inr (strftime (ord2ymd d))) =
    Inr (strftime (ord2ymd (today + i)))"
    by (simp add: date_add_def)
qed


lemma poll_finite: "poll nfc pages attempt remaining = Inr X \<Longrightarrow> finite X"
  by (induction nfc pages attempt remaining rule: poll.induct) (auto split: sum.splits if_splits)

lemma lines_for_date_finite: "lines_for_date nfc k pg = Inr X \<Longrightarrow> finite X"
  by (auto simp: lines_for_date_def split: if_splits dest: poll_finite)


text \<open>Two result pages, parsed.\<close>

lemma page_X:
  "html_to_lines id [\<lparr>date_span = Some (ustr ''June 01, 2025''),
     time_span = Some (ustr ''08:00-09:00''), previous_h3 = Some [ustr ''X'']\<rparr>] =
   Inr [ustr ''2025-06-01 08:00-09:00 - X'']"
  by (simp add: html_to_lines_def filter_none_def parser_eval)


section \<open>Properties of the snapshot store\<close>

lemma count_list_filter: "count_list (filter P xs) x = (if P x then count_list xs x else 0)"
  by (induction xs) auto

lemma linebreak_is_space: "is_linebreak c \<Longrightarrow> is_space c \<and> c \<noteq> SPACE"
  unfolding is_linebreak_def is_space_def by (elim disjE) simp_all

lemma ws_norm_spaces: "ws_norm s \<Longrightarrow> c \<in> set s \<Longrightarrow> is_space c \<Longrightarrow> c = SPACE"
  by (induction s rule: ws_norm.induct) auto

lemma canonical_ws_norm: "ws_norm (canonical nfc s)"
  unfolding canonical_def by (rule ws_norm_strip) (rule ws_norm_ws_re_sub)

lemma canonical_fixed_no_linebreak:
  assumes "canonical nfc l = l" "c \<in> set l"
  shows "\<not> is_linebreak c"
proof
  assume lb: "is_linebreak c"
  have "ws_norm l" using canonical_ws_norm [of nfc l] assms(1) by simp
  with assms(2) lb show False using ws_norm_spaces linebreak_is_space by blast
qed

lemma splitlines_aux_line:
  "\<forall>c \<in> set l. \<not> is_linebreak c \<Longrightarrow> splitlines_aux cur (l @ rest) = splitlines_aux (rev l @ cur) rest"
  by (induction l arbitrary: cur) simp_all

lemma splitlines_aux_LF: "splitlines_aux cur (LF # r) = rev cur # splitlines_aux [] r"
proof -
  have "is_linebreak LF" by (simp add: is_linebreak_def)
  then show ?thesis by (cases r) simp_all
qed

lemma splitlines_join:
  "\<forall>l \<in> set ls. l \<noteq> [] \<and> (\<forall>c \<in> set l. \<not> is_linebreak c) \<Longrightarrow> splitlines (join [LF] ls) = ls"
proof (induction ls rule: induct_list012)
  case 1
  then show ?case by (simp add: splitlines_def)
next
  case (2 x)
  then have "splitlines_aux [] (x @ []) = splitlines_aux (rev x @ []) []"
    by (intro splitlines_aux_line) simp
  with 2 show ?case by (simp add: splitlines_def)
next
  case (3 x y ys)
  from 3 have ih: "splitlines_aux [] (join [LF] (y # ys)) = y # ys"
    by (simp add: splitlines_def)
  from 3 have "splitlines_aux [] (x @ LF # join [LF] (y # ys)) =
      splitlines_aux (rev x @ []) (LF # join [LF] (y # ys))"
    by (intro splitlines_aux_line) simp
  also have "\<dots> = x # splitlines_aux [] (join [LF] (y # ys))"
    by (simp only: splitlines_aux_LF append_Nil2 rev_rev_ident)
  finally show ?case using ih by (simp add: splitlines_def)
qed

lemma load_save:
  assumes "\<forall>l \<in> set ls. canonical nfc l = l \<and> l \<noteq> []"
  shows "load_previous nfc (save_current ls w) = set ls"
proof -
  have "\<forall>l \<in> set ls. l \<noteq> [] \<and> (\<forall>c \<in> set l. \<not> is_linebreak c)"
    using assms canonical_fixed_no_linebreak by blast
  then have "splitlines (join [LF] ls) = ls" by (rule splitlines_join)
  then have "load_previous nfc (save_current ls w) = canonical nfc ` set ls"
    by (simp add: load_previous_def save_current_def)
  also have "\<dots> = set ls" using assms by force
  finally show ?thesis .
qed

lemma load_save_empty_line: "load_previous nfc (save_current [[]] w) = {}"
  by (simp add: load_previous_def save_current_def splitlines_def)

section \<open>Properties of the notifier and of the run\<close>



lemma run_actions_snap: "snap_file (snd (run_actions relay as w)) = snap_file w"
  by (induction as arbitrary: w) (simp_all add: Let_def)

lemma send_email_snap: "snap_file (snd (send_email smtp compose_error relay new_lines w)) = snap_file w"
proof -
  have 1: "snap_file w1 = snap_file w" if "run_actions relay as w = (r, w1)" for as r w1 w
    using run_actions_snap [of relay as w] that by simp
  show ?thesis
    by (auto simp: send_email_def Let_def split: option.splits sum.splits prod.splits dest!: 1)
qed





text \<open>An address that the \<open>email\<close> package refuses: composing raises before the port is read.\<close>

lemma send_email_composition_raises:
  "send_email \<lparr>SMTP_HOST = Some (ustr ''mail.example.org''), SMTP_PORT = Some (ustr ''smtp''),
      SMTP_USER = Some (ustr ''a@''), SMTP_PASS = Some (ustr ''secret''), SMTP_TO = Some (ustr ''you'')\<rparr>
     (\<lambda>m. if sender m = ustr ''a@'' then Some IndexError else None) relay
     [ustr ''2025-06-02 10:00-11:00 - Y''] w = (Inl IndexError, w)"
  by (simp add: send_email_def smtp_values_def truthy_def new_slots_message_def ustr_def)

lemma py_int_587: "py_int (ustr ''587'') = Inr 587"
  by (simp add: py_int_def ustr_def int_space_def is_digit_ascii decimal_value_ascii digits_value_def
      MAX_STR_DIGITS_def)


lemma fetch_example:
  "fetch_all_slots id 0 2
     (\<lambda>d. \<lparr>in_picker = True, content = (\<lambda>k. [\<lparr>date_span = Some (ustr ''June 01, 2025''),
        time_span = Some (ustr ''08:00-09:00''), previous_h3 = Some [ustr ''X'']\<rparr>])\<rparr>)
     739403 = Inr [ustr ''2025-06-01 08:00-09:00 - X'']"
  by (simp add: fetch_all_slots_def iso_dates_example lines_for_date_def numeral_2_eq_2 page_X)

lemma main_after_fetch:
  assumes "fetch_all_slots nfc (DATE_WINDOW_DAYS cfg) (SEARCH_ATTEMPTS cfg) site today = Inr current"
  shows "main nfc cfg compose_error relay site today w =
    (case send_email (SMTP cfg) compose_error relay (new_lines_of current (load_previous nfc w)) w of
       (Inl e, w1) \<Rightarrow> (Inl e, w1)
     | (Inr _, w1) \<Rightarrow> (Inr (), save_current current w1))"
  using assms by (simp add: main_def)

section \<open>The lines of a run result\<close>

text \<open>Every line of a run result is the result of a canonicalization and is not empty.\<close>

lemma map_result_set: "map_result f xs = Inr ys \<Longrightarrow> y \<in> set ys \<Longrightarrow> \<exists>x \<in> set xs. f x = Inr y"
  by (induction xs arbitrary: ys) (auto split: sum.splits)

lemma card_to_line_canonical: "card_to_line nfc c = Inr (Some l) \<Longrightarrow> \<exists>s. l = canonical nfc s"
  by (auto simp: card_to_line_def Let_def split: option.splits sum.splits prod.splits)

lemma html_to_lines_lines:
  assumes "html_to_lines nfc cards = Inr ls" "l \<in> set ls"
  shows "l \<noteq> [] \<and> (\<exists>s. l = canonical nfc s)"
proof -
  from assms(1) obtain rs where rs: "map_result (card_to_line nfc) cards = Inr rs"
    and ls: "ls = sorted_list_of_set (set (filter_none rs))"
    by (auto simp: html_to_lines_def split: sum.splits)
  from ls assms(2) have "l \<in> set (filter_none rs)" by simp
  then have m: "Some l \<in> set rs" and ne: "l \<noteq> []"
    by (auto simp: filter_none_def split: option.splits if_splits)
  from map_result_set [OF rs m] obtain c where "card_to_line nfc c = Inr (Some l)"
    by blast
  then have "\<exists>s. l = canonical nfc s" by (rule card_to_line_canonical)
  with ne show ?thesis by simp
qed

lemma poll_lines:
  "poll nfc pages attempt remaining = Inr X \<Longrightarrow> l \<in> X \<Longrightarrow> l \<noteq> [] \<and> (\<exists>s. l = canonical nfc s)"
proof (induction nfc pages attempt remaining rule: poll.induct)
  case (1 nfc pages attempt)
  then show ?case by simp
next
  case (2 nfc pages attempt remaining)
  then show ?case by (auto split: sum.splits if_splits dest: html_to_lines_lines)
qed

lemma lines_for_date_lines:
  "lines_for_date nfc k pg = Inr X \<Longrightarrow> l \<in> X \<Longrightarrow> l \<noteq> [] \<and> (\<exists>s. l = canonical nfc s)"
  by (auto simp: lines_for_date_def split: if_splits dest: poll_lines)

lemma update_all_lines:
  "update_all f isos seen = Inr X \<Longrightarrow> l \<in> X \<Longrightarrow> l \<in> seen \<or> (\<exists>d S. f d = Inr S \<and> l \<in> S)"
  by (induction isos arbitrary: seen) (auto split: sum.splits)

lemma update_all_finite:
  "update_all f isos seen = Inr X \<Longrightarrow> finite seen \<Longrightarrow> (\<And>d S. f d = Inr S \<Longrightarrow> finite S) \<Longrightarrow> finite X"
  by (induction isos arbitrary: seen) (auto split: sum.splits)

lemma fetch_all_slots_lines:
  assumes "fetch_all_slots nfc n k site today = Inr current" "l \<in> set current"
  shows "l \<noteq> [] \<and> (\<exists>s. l = canonical nfc s)"
proof -
  from assms(1) obtain isos seen where
    u: "update_all (\<lambda>iso_date. lines_for_date nfc k (site iso_date)) isos {} = Inr seen"
    and c: "current = sorted_list_of_set seen"
    by (auto simp: fetch_all_slots_def split: sum.splits)
  from u have "finite seen"
    by (rule update_all_finite) (auto dest: lines_for_date_finite)
  with c assms(2) have "l \<in> seen" by simp
  with u obtain d S where "lines_for_date nfc k (site d) = Inr S" "l \<in> S"
    using update_all_lines by fastforce
  then show ?thesis by (rule lines_for_date_lines)
qed

text \<open>
  The snapshot that a run writes loads as the result of the run, when the results of
  canonicalization are in NFC.
\<close>

lemma run_result_round_trip:
  assumes "\<And>s. nfc (canonical nfc s) = canonical nfc s"
    and "fetch_all_slots nfc n k site today = Inr current"
  shows "load_previous nfc (save_current current w) = set current"
proof (rule load_save, rule ballI)
  fix l
  assume "l \<in> set current"
  with assms(2) obtain s where ne: "l \<noteq> []" and l: "l = canonical nfc s"
    using fetch_all_slots_lines by blast
  have "canonical nfc (canonical nfc s) = canonical nfc s"
    unfolding canonical_def [of nfc "canonical nfc s"] assms(1)
    unfolding canonical_def by (rule rewrite_rewrite)
  with ne l show "canonical nfc l = l \<and> l \<noteq> []" by simp
qed

section \<open>Claims\<close>

text \<open>
  C1. A booking card whose date and time sub-elements are present and valid and that has
  no heading before it in document order is claimed to give a slot line with the title
  \<open>Unknown booking\<close>. At such a card \<open>_card_to_line\<close> raises \<open>AttributeError\<close>:
  \<open>find_previous\<close> returns \<open>None\<close> and \<open>get_text\<close> is called on the string \<open>""\<close>.
  This holds for every such card (\<open>card_to_line_no_heading\<close>); the fallback title
  is reached only when there is a heading and it has no text (\<open>card_with_empty_heading\<close>).
\<close>

theorem card_without_heading_raises:
  "card_to_line nfc \<lparr>date_span = Some (ustr ''June 01, 2025''),
     time_span = Some (ustr ''08:00-09:00''), previous_h3 = None\<rparr> = Inl AttributeError"
  by (simp add: parser_eval)



text \<open>
  C3, as claimed: the window has as many dates as the configured number of days. With the
  default of 57 days the window has 58 dates.
\<close>

theorem date_window_length_counterexample:
  "map_sum id length (iso_dates 739403 57) = Inr 58 \<and>
   map_sum id length (iso_dates 739403 57) \<noteq> Inr (nat 57)"
proof -
  have "iso_dates 739403 57 = Inr (map (\<lambda>i. strftime (ord2ymd (739403 + i))) [0..<nat (57 + 1)])"
    by (rule iso_dates_window) (simp_all add: MAXORDINAL_def)
  then show ?thesis by simp
qed

text \<open>
  C3, amended. For a configured number of days \<open>n\<close>, the date window is the ordered
  sequence of the \<open>n + 1\<close> consecutive dates from today to today plus \<open>n\<close> days, both
  included (none when \<open>n\<close> is negative), each written as \<open>YYYY-MM-DD\<close>; this as long as
  the last of them is a date, not beyond 9999-12-31.
\<close>

theorem date_window:
  assumes "0 < today" "today + nat n \<le> MAXORDINAL"
  shows "iso_dates today n = Inr (map (\<lambda>i. strftime (ord2ymd (today + i))) [0..<nat (n + 1)]) \<and>
    map_sum id length (iso_dates today n) = Inr (nat (n + 1))"
  using iso_dates_window [OF assms] by simp

theorem date_window_witness:
  "iso_dates 739403 2 = Inr [ustr ''2025-06-01'', ustr ''2025-06-02'', ustr ''2025-06-03''] \<and>
   map_sum id length (iso_dates 739403 2) = Inr 3"
proof -
  have "(0::nat) < 739403" "739403 + nat 2 \<le> MAXORDINAL" by (simp_all add: MAXORDINAL_def)
  from date_window [OF this]
  have "iso_dates 739403 2 = Inr [strftime (ord2ymd 739403), strftime (ord2ymd 739404),
      strftime (ord2ymd 739405)] \<and> map_sum id length (iso_dates 739403 2) = Inr 3"
    by (simp add: upt_conv_Cons)
  then show ?thesis
    by (simp add: ord2ymd_def DAYS_BEFORE_MONTH_def DAYS_IN_MONTH_def strftime_def pad2_def
        str_nat.simps ustr_def Let_def)
qed

text \<open>
  C4, as claimed: \<open>save_current\<close> is called at the end of every run that completed
  scraping, also when \<open>send_email\<close> raises a delivery error. Here scraping gives one
  line, the relay refuses the connection, and the run ends with the error and with the
  old snapshot file.
\<close>

theorem snapshot_not_saved_counterexample:
  "fetch_all_slots id 0 2
     (\<lambda>d. \<lparr>in_picker = True, content = (\<lambda>k. [\<lparr>date_span = Some (ustr ''June 01, 2025''),
        time_span = Some (ustr ''08:00-09:00''), previous_h3 = Some [ustr ''X'']\<rparr>])\<rparr>)
     739403 = Inr [ustr ''2025-06-01 08:00-09:00 - X''] \<and>
   main id
     \<lparr>DATE_WINDOW_DAYS = 0, SEARCH_ATTEMPTS = 2,
      SMTP = \<lparr>SMTP_HOST = Some (ustr ''mail.example.org''), SMTP_PORT = Some (ustr ''587''),
        SMTP_USER = Some (ustr ''me''), SMTP_PASS = Some (ustr ''secret''), SMTP_TO = Some (ustr ''you'')\<rparr>\<rparr>
     (\<lambda>m. None) (\<lambda>a. False)
     (\<lambda>d. \<lparr>in_picker = True, content = (\<lambda>k. [\<lparr>date_span = Some (ustr ''June 01, 2025''),
        time_span = Some (ustr ''08:00-09:00''), previous_h3 = Some [ustr ''X'']\<rparr>])\<rparr>)
     739403 \<lparr>snap_file = Some (ustr ''old''), network = []\<rparr> =
   (Inl DeliveryError,
    \<lparr>snap_file = Some (ustr ''old''), network = [Connect (ustr ''mail.example.org'') 587]\<rparr>)"
proof
  show f: "fetch_all_slots id 0 2
     (\<lambda>d. \<lparr>in_picker = True, content = (\<lambda>k. [\<lparr>date_span = Some (ustr ''June 01, 2025''),
        time_span = Some (ustr ''08:00-09:00''), previous_h3 = Some [ustr ''X'']\<rparr>])\<rparr>)
     739403 = Inr [ustr ''2025-06-01 08:00-09:00 - X'']"
    by (rule fetch_example)
  have l: "load_previous id \<lparr>snap_file = Some (ustr ''old''), network = []\<rparr> = {ustr ''old''}"
    by (simp add: load_previous_def splitlines_def is_linebreak_def canonical_def strip_def
        replace_def is_space_def ustr_def)
  have n: "new_lines_of [ustr ''2025-06-01 08:00-09:00 - X''] {ustr ''old''} =
      [ustr ''2025-06-01 08:00-09:00 - X'']"
    by (simp add: new_lines_of_def ustr_def)
  show "main id
     \<lparr>DATE_WINDOW_DAYS = 0, SEARCH_ATTEMPTS = 2,
      SMTP = \<lparr>SMTP_HOST = Some (ustr ''mail.example.org''), SMTP_PORT = Some (ustr ''587''),
        SMTP_USER = Some (ustr ''me''), SMTP_PASS = Some (ustr ''secret''), SMTP_TO = Some (ustr ''you'')\<rparr>\<rparr>
     (\<lambda>m. None) (\<lambda>a. False)
     (\<lambda>d. \<lparr>in_picker = True, content = (\<lambda>k. [\<lparr>date_span = Some (ustr ''June 01, 2025''),
        time_span = Some (ustr ''08:00-09:00''), previous_h3 = Some [ustr ''X'']\<rparr>])\<rparr>)
     739403 \<lparr>snap_file = Some (ustr ''old''), network = []\<rparr> =
   (Inl DeliveryError,
    \<lparr>snap_file = Some (ustr ''old''), network = [Connect (ustr ''mail.example.org'') 587]\<rparr>)"
    by (simp add: main_after_fetch f l n send_email_def smtp_values_def truthy_def py_int_587
        connect_endpoint_def new_slots_message_def str_nat.simps)
       (simp add: ustr_def)
qed

text \<open>
  C4, amended. In every run that completed scraping and in which \<open>send_email\<close>
  returns, \<open>save_current\<close> is called at the end with the current run result and the
  snapshot file is overwritten with it; so it is when nothing changed. When
  \<open>send_email\<close> raises, the run ends with that exception and the snapshot file is
  left as it was.
\<close>

theorem main_saves_when_notified:
  assumes "fetch_all_slots nfc (DATE_WINDOW_DAYS cfg) (SEARCH_ATTEMPTS cfg) site today = Inr current"
  shows
   "(\<forall>w1. send_email (SMTP cfg) compose_error relay (new_lines_of current (load_previous nfc w)) w = (Inr (), w1) \<longrightarrow>
       main nfc cfg compose_error relay site today w = (Inr (), save_current current w1) \<and>
       snap_file (snd (main nfc cfg compose_error relay site today w)) = Some (join [LF] current)) \<and>
    (new_lines_of current (load_previous nfc w) = [] \<longrightarrow>
       main nfc cfg compose_error relay site today w = (Inr (), save_current current w)) \<and>
    (\<forall>e w1. send_email (SMTP cfg) compose_error relay (new_lines_of current (load_previous nfc w)) w = (Inl e, w1) \<longrightarrow>
       main nfc cfg compose_error relay site today w = (Inl e, w1) \<and> snap_file w1 = snap_file w)"
proof (intro conjI allI impI)
  fix w1
  assume s: "send_email (SMTP cfg) compose_error relay (new_lines_of current (load_previous nfc w)) w = (Inr (), w1)"
  with assms show m: "main nfc cfg compose_error relay site today w = (Inr (), save_current current w1)"
    by (simp add: main_after_fetch)
  then show "snap_file (snd (main nfc cfg compose_error relay site today w)) = Some (join [LF] current)"
    by (simp add: save_current_def)
next
  assume "new_lines_of current (load_previous nfc w) = []"
  then have "send_email (SMTP cfg) compose_error relay (new_lines_of current (load_previous nfc w)) w = (Inr (), w)"
    by (simp add: send_email_def)
  with assms show "main nfc cfg compose_error relay site today w = (Inr (), save_current current w)"
    by (simp add: main_after_fetch)
next
  fix e w1
  assume s: "send_email (SMTP cfg) compose_error relay (new_lines_of current (load_previous nfc w)) w = (Inl e, w1)"
  with assms show "main nfc cfg compose_error relay site today w = (Inl e, w1)"
    by (simp add: main_after_fetch)
  from s send_email_snap [of "SMTP cfg" compose_error relay "new_lines_of current (load_previous nfc w)" w]
  show "snap_file w1 = snap_file w" by simp
qed

theorem main_saves_when_notified_witness:
  "main id
     \<lparr>DATE_WINDOW_DAYS = 0, SEARCH_ATTEMPTS = 2,
      SMTP = \<lparr>SMTP_HOST = Some (ustr ''mail.example.org''), SMTP_PORT = Some (ustr ''587''),
        SMTP_USER = Some (ustr ''me''), SMTP_PASS = Some (ustr ''secret''), SMTP_TO = Some (ustr ''you'')\<rparr>\<rparr>
     (\<lambda>m. None) (\<lambda>a. True)
     (\<lambda>d. \<lparr>in_picker = True, content = (\<lambda>k. [\<lparr>date_span = Some (ustr ''June 01, 2025''),
        time_span = Some (ustr ''08:00-09:00''), previous_h3 = Some [ustr ''X'']\<rparr>])\<rparr>)
     739403 \<lparr>snap_file = Some (ustr ''2025-06-01 08:00-09:00 - X''), network = []\<rparr> =
   (Inr (), \<lparr>snap_file = Some (ustr ''2025-06-01 08:00-09:00 - X''), network = []\<rparr>) \<and>
   main id
     \<lparr>DATE_WINDOW_DAYS = 0, SEARCH_ATTEMPTS = 2,
      SMTP = \<lparr>SMTP_HOST = Some (ustr ''mail.example.org''), SMTP_PORT = Some (ustr ''587''),
        SMTP_USER = Some (ustr ''me''), SMTP_PASS = Some (ustr ''secret''), SMTP_TO = Some (ustr ''you'')\<rparr>\<rparr>
     (\<lambda>m. None) (\<lambda>a. True)
     (\<lambda>d. \<lparr>in_picker = True, content = (\<lambda>k. [\<lparr>date_span = Some (ustr ''June 01, 2025''),
        time_span = Some (ustr ''08:00-09:00''), previous_h3 = Some [ustr ''X'']\<rparr>])\<rparr>)
     739403 \<lparr>snap_file = None, network = []\<rparr> =
   (Inr (), \<lparr>snap_file = Some (ustr ''2025-06-01 08:00-09:00 - X''),
      network = [Connect (ustr ''mail.example.org'') 587, StartTLS, Login (ustr ''me'') (ustr ''secret''),
        SendMessage \<lparr>subject = ustr ''[Ravenair Cloud] 1 new booking slot(s)'', sender = ustr ''me'',
          recipient = ustr ''you'', body = ustr ''2025-06-01 08:00-09:00 - X''\<rparr>, Quit]\<rparr>)"
proof -
  let ?cfg = "\<lparr>DATE_WINDOW_DAYS = 0, SEARCH_ATTEMPTS = 2,
      SMTP = \<lparr>SMTP_HOST = Some (ustr ''mail.example.org''), SMTP_PORT = Some (ustr ''587''),
        SMTP_USER = Some (ustr ''me''), SMTP_PASS = Some (ustr ''secret''), SMTP_TO = Some (ustr ''you'')\<rparr>\<rparr>"
  let ?site = "\<lambda>d::ustring. \<lparr>in_picker = True, content = (\<lambda>k::nat. [\<lparr>date_span = Some (ustr ''June 01, 2025''),
        time_span = Some (ustr ''08:00-09:00''), previous_h3 = Some [ustr ''X'']\<rparr>])\<rparr>"
  let ?X = "ustr ''2025-06-01 08:00-09:00 - X''"
  let ?w = "\<lparr>snap_file = Some ?X, network = []\<rparr>"
  let ?wn = "\<lparr>snap_file = None, network = []\<rparr>"
  have f: "fetch_all_slots id (DATE_WINDOW_DAYS ?cfg) (SEARCH_ATTEMPTS ?cfg) ?site 739403 = Inr [?X]"
    using fetch_example by simp
  have "canonical id ?X = ?X \<and> ?X \<noteq> []" by (simp add: parser_eval)
  then have l: "load_previous id ?w = {?X}"
    using load_save [of "[?X]" id ?wn] by (simp add: save_current_def)
  have n: "new_lines_of [?X] (load_previous id ?w) = []"
    by (simp add: l new_lines_of_def)
  from main_saves_when_notified [OF f, of "\<lambda>m. None" "\<lambda>a. True" ?w] n
  have 1: "main id ?cfg (\<lambda>m. None) (\<lambda>a. True) ?site 739403 ?w = (Inr (), ?w)"
    by (simp add: save_current_def)
  have n0: "new_lines_of [?X] (load_previous id ?wn) = [?X]"
    by (simp add: load_previous_def new_lines_of_def)
  let ?wm = "\<lparr>snap_file = None,
      network = [Connect (ustr ''mail.example.org'') 587, StartTLS, Login (ustr ''me'') (ustr ''secret''),
        SendMessage \<lparr>subject = ustr ''[Ravenair Cloud] 1 new booking slot(s)'', sender = ustr ''me'',
          recipient = ustr ''you'', body = ustr ''2025-06-01 08:00-09:00 - X''\<rparr>, Quit]\<rparr>"
  have s: "send_email (SMTP ?cfg) (\<lambda>m. None) (\<lambda>a. True) (new_lines_of [?X] (load_previous id ?wn)) ?wn = (Inr (), ?wm)"
    by (simp add: n0 send_email_def smtp_values_def truthy_def py_int_587 str_nat.simps
        connect_endpoint_def new_slots_message_def)
       (simp add: ustr_def)
  from main_saves_when_notified [OF f, of "\<lambda>m. None" "\<lambda>a. True" ?wn] s
  have 2: "main id ?cfg (\<lambda>m. None) (\<lambda>a. True) ?site 739403 ?wn = (Inr (), save_current [?X] ?wm)"
    by blast
  from 1 2 show ?thesis by (simp add: save_current_def)
qed

text \<open>
  C5. The new lines are the subsequence of the current run result made of the lines
  that are not in the previous snapshot: every such line as often as the run result has
  it, no other line, in the order of the run result, which is sorted when the run result
  is. With the snapshot \<open>{"2025-06-01 08:00-09:00 - X"}\<close> and the result of the two
  lines \<open>"2025-06-01 08:00-09:00 - X"\<close> and \<open>"2025-06-02 10:00-11:00 - Y"\<close> the new
  lines are the second line alone, and when the result has the lines of the snapshot
  there is no new line.
\<close>

theorem new_lines_diff:
  "subseq (new_lines_of current prev) current \<and>
   (\<forall>ln. count_list (new_lines_of current prev) ln = (if ln \<in> prev then 0 else count_list current ln)) \<and>
   set (new_lines_of current prev) = set current - prev \<and>
   (sorted current \<longrightarrow> sorted (new_lines_of current prev)) \<and>
   (set current = prev \<longrightarrow> new_lines_of current prev = []) \<and>
   new_lines_of [ustr ''2025-06-01 08:00-09:00 - X'', ustr ''2025-06-02 10:00-11:00 - Y'']
     {ustr ''2025-06-01 08:00-09:00 - X''} = [ustr ''2025-06-02 10:00-11:00 - Y'']"
proof (intro conjI allI impI)
  show "subseq (new_lines_of current prev) current"
    by (simp add: new_lines_of_def)
  show "count_list (new_lines_of current prev) ln = (if ln \<in> prev then 0 else count_list current ln)" for ln
    by (simp add: new_lines_of_def count_list_filter)
  show "set (new_lines_of current prev) = set current - prev"
    by (auto simp: new_lines_of_def)
  show "sorted (new_lines_of current prev)" if "sorted current"
    using that by (simp add: new_lines_of_def sorted_wrt_filter)
  show "new_lines_of current prev = []" if "set current = prev"
    using that by (auto simp: new_lines_of_def filter_empty_conv)
  show "new_lines_of [ustr ''2025-06-01 08:00-09:00 - X'', ustr ''2025-06-02 10:00-11:00 - Y'']
     {ustr ''2025-06-01 08:00-09:00 - X''} = [ustr ''2025-06-02 10:00-11:00 - Y'']"
    by (simp add: new_lines_of_def ustr_def)
qed

theorem new_lines_diff_witness:
  "sorted [ustr ''2025-06-01 08:00-09:00 - X'', ustr ''2025-06-02 10:00-11:00 - Y''] \<and>
   sorted (new_lines_of [ustr ''2025-06-01 08:00-09:00 - X'', ustr ''2025-06-02 10:00-11:00 - Y'']
     {ustr ''2025-06-01 08:00-09:00 - X'', ustr ''2025-06-02 10:00-11:00 - Y''}) \<and>
   new_lines_of [ustr ''2025-06-01 08:00-09:00 - X'', ustr ''2025-06-02 10:00-11:00 - Y'']
     {ustr ''2025-06-01 08:00-09:00 - X'', ustr ''2025-06-02 10:00-11:00 - Y''} = []"
proof -
  let ?c = "[ustr ''2025-06-01 08:00-09:00 - X'', ustr ''2025-06-02 10:00-11:00 - Y'']"
  have s: "sorted ?c" by (simp add: ustr_def)
  have e: "set ?c = {ustr ''2025-06-01 08:00-09:00 - X'', ustr ''2025-06-02 10:00-11:00 - Y''}" by simp
  from new_lines_diff [of ?c "{ustr ''2025-06-01 08:00-09:00 - X'', ustr ''2025-06-02 10:00-11:00 - Y''}"] s e
  show ?thesis by blast
qed

text \<open>
  C6. Card parsing returns no line, and raises nothing, exactly when the date
  sub-element or the time sub-element is absent or the time text does not match the
  pattern \<open>HH:MM-HH:MM\<close>. When both are there and the time matches, but the date text
  (stripped) has not the long form of month, day and year, or is refused by
  \<open>strptime\<close> for another reason, card parsing raises \<open>ValueError\<close>; nothing
  catches it: parsing a page with this card raises, and a run that reads such a page at
  the first attempt for a date of its window ends with an exception and leaves the world
  as it was.
\<close>

theorem card_to_line_skips_or_raises:
  "(card_to_line nfc c = Inr None \<longleftrightarrow>
      date_span c = None \<or> time_span c = None \<or> (\<exists>t. time_span c = Some t \<and> \<not> time_pattern t)) \<and>
   (\<forall>d t. date_span c = Some d \<and> time_span c = Some t \<and> time_pattern t \<and>
      (\<not> long_form_date (strip d) \<or> isl (normalise_date d)) \<longrightarrow>
      card_to_line nfc c = Inl ValueError \<and>
      (\<forall>cards. c \<in> set cards \<longrightarrow> isl (html_to_lines nfc cards)) \<and>
      (\<forall>cfg compose_error relay site today w isos iso_date.
         iso_dates today (DATE_WINDOW_DAYS cfg) = Inr isos \<and> iso_date \<in> set isos \<and>
         in_picker (site iso_date) \<and> 0 < SEARCH_ATTEMPTS cfg \<and> c \<in> set (content (site iso_date) 0) \<longrightarrow>
         isl (fst (main nfc cfg compose_error relay site today w)) \<and> snd (main nfc cfg compose_error relay site today w) = w))"
proof (intro conjI allI impI)
  show "card_to_line nfc c = Inr None \<longleftrightarrow>
      date_span c = None \<or> time_span c = None \<or> (\<exists>t. time_span c = Some t \<and> \<not> time_pattern t)"
  proof -
    have "\<And>t. time_re_search t = None \<longleftrightarrow> \<not> time_pattern t"
      using time_re_search_iff by blast
    then show ?thesis by (simp only: card_to_line_None)
  qed
next
  fix d t
  assume a: "date_span c = Some d \<and> time_span c = Some t \<and> time_pattern t \<and>
    (\<not> long_form_date (strip d) \<or> isl (normalise_date d))"
  then have "time_re_search t \<noteq> None" using time_re_search_iff by blast
  moreover from a have "isl (normalise_date d)" using not_long_form_raises by blast
  ultimately show v: "card_to_line nfc c = Inl ValueError"
    using a by (intro card_to_line_bad_date [of c d t]) blast+
  {
    fix cards
    assume "c \<in> set cards"
    with v show "isl (html_to_lines nfc cards)" by (intro html_to_lines_error [of c]) simp_all
  }
  {
    fix cfg :: config and compose_error and relay and site :: "ustring \<Rightarrow> results_page" and today
      and w :: world and isos iso_date
    assume b: "iso_dates today (DATE_WINDOW_DAYS cfg) = Inr isos \<and> iso_date \<in> set isos \<and>
         in_picker (site iso_date) \<and> 0 < SEARCH_ATTEMPTS cfg \<and> c \<in> set (content (site iso_date) 0)"
    with v have "isl (html_to_lines nfc (content (site iso_date) 0))"
      by (intro html_to_lines_error [of c]) simp_all
    with b have "isl (lines_for_date nfc (SEARCH_ATTEMPTS cfg) (site iso_date))"
      by (intro lines_for_date_error) simp_all
    with b have "isl (fetch_all_slots nfc (DATE_WINDOW_DAYS cfg) (SEARCH_ATTEMPTS cfg) site today)"
      by (intro fetch_all_slots_error [of today _ isos iso_date]) simp_all
    then have m: "isl (fst (main nfc cfg compose_error relay site today w)) \<and> snd (main nfc cfg compose_error relay site today w) = w"
      by (rule main_fetch_error)
    from m show "isl (fst (main nfc cfg compose_error relay site today w))" ..
    from m show "snd (main nfc cfg compose_error relay site today w) = w" ..
  }
qed

theorem card_to_line_skips_or_raises_witness:
  "card_to_line id \<lparr>date_span = Some (ustr ''June 01, 2025''), time_span = None,
     previous_h3 = None\<rparr> = Inr None \<and>
   card_to_line id \<lparr>date_span = Some (ustr ''01/06/2025''),
     time_span = Some (ustr ''08:00-09:00''), previous_h3 = Some [ustr ''X'']\<rparr> = Inl ValueError \<and>
   isl (html_to_lines id [\<lparr>date_span = Some (ustr ''01/06/2025''),
     time_span = Some (ustr ''08:00-09:00''), previous_h3 = Some [ustr ''X'']\<rparr>]) \<and>
   isl (fst (main id
     \<lparr>DATE_WINDOW_DAYS = 0, SEARCH_ATTEMPTS = 2,
      SMTP = \<lparr>SMTP_HOST = None, SMTP_PORT = None, SMTP_USER = None, SMTP_PASS = None, SMTP_TO = None\<rparr>\<rparr>
     (\<lambda>m. None) (\<lambda>a. True)
     (\<lambda>d. \<lparr>in_picker = True, content = (\<lambda>k. [\<lparr>date_span = Some (ustr ''01/06/2025''),
        time_span = Some (ustr ''08:00-09:00''), previous_h3 = Some [ustr ''X'']\<rparr>])\<rparr>)
     739403 \<lparr>snap_file = Some (ustr ''old''), network = []\<rparr>))"
proof -
  let ?c0 = "\<lparr>date_span = Some (ustr ''June 01, 2025''), time_span = None, previous_h3 = None\<rparr>"
  let ?c1 = "\<lparr>date_span = Some (ustr ''01/06/2025''),
     time_span = Some (ustr ''08:00-09:00''), previous_h3 = Some [ustr ''X'']\<rparr>"
  let ?cfg = "\<lparr>DATE_WINDOW_DAYS = 0, SEARCH_ATTEMPTS = 2,
      SMTP = \<lparr>SMTP_HOST = None, SMTP_PORT = None, SMTP_USER = None, SMTP_PASS = None, SMTP_TO = None\<rparr>\<rparr>"
  let ?site = "\<lambda>d::ustring. \<lparr>in_picker = True, content = (\<lambda>k::nat. [?c1])\<rparr>"
  have t: "time_pattern (ustr ''08:00-09:00'')"
  proof -
    have "time_re_search (ustr ''08:00-09:00'') \<noteq> None" by (simp add: parser_eval)
    then show ?thesis by (simp only: time_re_search_iff)
  qed
  have d: "isl (normalise_date (ustr ''01/06/2025''))" by (simp add: parser_eval)
  have 0: "card_to_line id ?c0 = Inr None"
    using card_to_line_skips_or_raises [of id ?c0] by simp
  have all: "card_to_line id ?c1 = Inl ValueError \<and>
      (\<forall>cards. ?c1 \<in> set cards \<longrightarrow> isl (html_to_lines id cards)) \<and>
      (\<forall>cfg compose_error relay site today w isos iso_date.
         iso_dates today (DATE_WINDOW_DAYS cfg) = Inr isos \<and> iso_date \<in> set isos \<and>
         in_picker (site iso_date) \<and> 0 < SEARCH_ATTEMPTS cfg \<and> ?c1 \<in> set (content (site iso_date) 0) \<longrightarrow>
         isl (fst (main id cfg compose_error relay site today w)) \<and> snd (main id cfg compose_error relay site today w) = w)"
    using card_to_line_skips_or_raises [of id ?c1] t d by simp
  from all have 1: "card_to_line id ?c1 = Inl ValueError" by blast
  from all have 2: "isl (html_to_lines id [?c1])" by simp
  from all have q: "\<forall>cfg compose_error relay site today w isos iso_date.
         iso_dates today (DATE_WINDOW_DAYS cfg) = Inr isos \<and> iso_date \<in> set isos \<and>
         in_picker (site iso_date) \<and> 0 < SEARCH_ATTEMPTS cfg \<and> ?c1 \<in> set (content (site iso_date) 0) \<longrightarrow>
         isl (fst (main id cfg compose_error relay site today w)) \<and> snd (main id cfg compose_error relay site today w) = w"
    by (elim conjE)
  have 3: "isl (fst (main id ?cfg (\<lambda>m. None) (\<lambda>a. True) ?site 739403 \<lparr>snap_file = Some (ustr ''old''), network = []\<rparr>))"
    using q [rule_format, of 739403 ?cfg "[ustr ''2025-06-01'']" "ustr ''2025-06-01''" ?site
        "\<lambda>m. None" "\<lambda>a. True" "\<lparr>snap_file = Some (ustr ''old''), network = []\<rparr>"]
    by (simp add: iso_dates_example)
  from 0 1 2 3 show ?thesis by blast
qed

text \<open>
  C7. Snapshot round trip: for every finite set of canonical slot lines (texts that
  canonicalization leaves as they are, and that are not empty, as a slot line starts
  with its date), saving the sorted lines and loading them again gives the same set;
  this includes the empty set, and a missing or an empty file loads as the empty set.
  The lines of a run result are such lines (\<open>run_result_round_trip\<close>).
\<close>

theorem snapshot_round_trip:
  assumes "finite L" "\<forall>l \<in> L. canonical nfc l = l \<and> l \<noteq> []"
  shows "load_previous nfc (save_current (sorted_list_of_set L) w) = L \<and>
    load_previous nfc (w\<lparr>snap_file := None\<rparr>) = {} \<and>
    load_previous nfc (w\<lparr>snap_file := Some []\<rparr>) = {}"
proof -
  have "load_previous nfc (save_current (sorted_list_of_set L) w) = set (sorted_list_of_set L)"
    using assms by (intro load_save) simp
  with assms(1) show ?thesis by (simp add: load_previous_def splitlines_def)
qed

theorem snapshot_round_trip_witness:
  "load_previous id (save_current [ustr ''2025-06-01 08:00-09:00 - X'', ustr ''2025-06-02 10:00-11:00 - Y'']
     \<lparr>snap_file = None, network = []\<rparr>) =
     {ustr ''2025-06-01 08:00-09:00 - X'', ustr ''2025-06-02 10:00-11:00 - Y''} \<and>
   load_previous id (save_current [] \<lparr>snap_file = None, network = []\<rparr>) = {}"
proof -
  let ?X = "ustr ''2025-06-01 08:00-09:00 - X''" and ?Y = "ustr ''2025-06-02 10:00-11:00 - Y''"
  have c: "canonical id ?X = ?X" "canonical id ?Y = ?Y" "?X \<noteq> []" "?Y \<noteq> []"
    by (simp_all add: parser_eval)
  have s: "sorted_list_of_set {?X, ?Y} = [?X, ?Y]" by (simp add: ustr_def)
  have "finite {?X, ?Y}" "\<forall>l \<in> {?X, ?Y}. canonical id l = l \<and> l \<noteq> []" using c by simp_all
  from snapshot_round_trip [OF this, of "\<lparr>snap_file = None, network = []\<rparr>"]
  have 1: "load_previous id (save_current [?X, ?Y] \<lparr>snap_file = None, network = []\<rparr>) = {?X, ?Y}"
    by (simp only: s)
  have "finite ({} :: ustring set)" "\<forall>l \<in> ({} :: ustring set). canonical id l = l \<and> l \<noteq> []" by simp_all
  from snapshot_round_trip [OF this, of "\<lparr>snap_file = None, network = []\<rparr>"]
  have 2: "load_previous id (save_current [] \<lparr>snap_file = None, network = []\<rparr>) = {}"
    by simp
  from 1 2 show ?thesis by blast
qed



text \<open>
  C9. \<open>send_email\<close> does nothing (it returns, and the world is as before: nothing
  went over the network) whenever there are no new lines, or one of the five mail
  settings (host, port, user, password, recipient) is absent, whatever the new lines.
\<close>

theorem send_email_noop:
  "new_lines = [] \<or> SMTP_HOST smtp = None \<or> SMTP_PORT smtp = None \<or> SMTP_USER smtp = None \<or>
   SMTP_PASS smtp = None \<or> SMTP_TO smtp = None \<Longrightarrow>
   send_email smtp compose_error relay new_lines w = (Inr (), w)"
  by (auto simp: send_email_def smtp_values_def truthy_def)

theorem send_email_noop_witness:
  "send_email \<lparr>SMTP_HOST = Some (ustr ''mail.example.org''), SMTP_PORT = Some (ustr ''587''),
      SMTP_USER = Some (ustr ''me''), SMTP_PASS = None, SMTP_TO = Some (ustr ''you'')\<rparr>
     (\<lambda>m. None) (\<lambda>a. True) [ustr ''2025-06-02 10:00-11:00 - Y''] \<lparr>snap_file = None, network = []\<rparr> =
   (Inr (), \<lparr>snap_file = None, network = []\<rparr>) \<and>
   send_email \<lparr>SMTP_HOST = Some (ustr ''mail.example.org''), SMTP_PORT = Some (ustr ''587''),
      SMTP_USER = Some (ustr ''me''), SMTP_PASS = Some (ustr ''secret''), SMTP_TO = Some (ustr ''you'')\<rparr>
     (\<lambda>m. None) (\<lambda>a. True) [] \<lparr>snap_file = None, network = []\<rparr> =
   (Inr (), \<lparr>snap_file = None, network = []\<rparr>)"
proof
  show "send_email \<lparr>SMTP_HOST = Some (ustr ''mail.example.org''), SMTP_PORT = Some (ustr ''587''),
      SMTP_USER = Some (ustr ''me''), SMTP_PASS = None, SMTP_TO = Some (ustr ''you'')\<rparr>
     (\<lambda>m. None) (\<lambda>a. True) [ustr ''2025-06-02 10:00-11:00 - Y''] \<lparr>snap_file = None, network = []\<rparr> =
   (Inr (), \<lparr>snap_file = None, network = []\<rparr>)"
    by (rule send_email_noop) simp
  show "send_email \<lparr>SMTP_HOST = Some (ustr ''mail.example.org''), SMTP_PORT = Some (ustr ''587''),
      SMTP_USER = Some (ustr ''me''), SMTP_PASS = Some (ustr ''secret''), SMTP_TO = Some (ustr ''you'')\<rparr>
     (\<lambda>m. None) (\<lambda>a. True) [] \<lparr>snap_file = None, network = []\<rparr> =
   (Inr (), \<lparr>snap_file = None, network = []\<rparr>)"
    by (rule send_email_noop) simp
qed




end
